theory Spec2Isabelle
  imports Main
begin

section \<open>Strings of the program\<close>

text \<open>
  The program is TypeScript. A JavaScript string is a finite sequence of UTF-16 code
  units, and every operation the program uses (\<^verbatim>\<open>length\<close>, \<^verbatim>\<open>substring\<close>,
  regular expressions without the \<^verbatim>\<open>u\<close> flag, \<^verbatim>\<open>===\<close>) works on code units. A
  string is modelled as the list of its code units, each a natural number (below
  65536 in a real string; nothing here does arithmetic on a code unit, so the bound is
  never needed). The Japanese literals of the source are written as their code units,
  with the source text beside them.
\<close>

type_synonym jsstring = "nat list"

definition ascii :: "string \<Rightarrow> jsstring" where
  "ascii s = map of_char s"

definition startsWith :: "jsstring \<Rightarrow> jsstring \<Rightarrow> bool" where
  \<comment> \<open>\<^verbatim>\<open>s.startsWith(p)\<close>\<close>
  "startsWith s p = (take (length p) s = p)"

definition includes_s :: "jsstring \<Rightarrow> nat \<Rightarrow> bool" where
  \<comment> \<open>\<^verbatim>\<open>s.includes(c)\<close> for a search string of one code unit\<close>
  "includes_s s c = (c \<in> set s)"

definition substring :: "jsstring \<Rightarrow> nat \<Rightarrow> nat \<Rightarrow> jsstring" where
  \<comment> \<open>\<^verbatim>\<open>s.substring(a, b)\<close>: the arguments are swapped when \<open>a > b\<close> and clamped
      to the length (which \<open>take\<close> and \<open>drop\<close> do)\<close>
  "substring s a b = take (max a b - min a b) (drop (min a b) s)"

fun lastIndexOf :: "jsstring \<Rightarrow> nat \<Rightarrow> nat \<Rightarrow> int" where
  \<comment> \<open>\<^verbatim>\<open>s.lastIndexOf(c, pos)\<close> for a search string of one code unit: the greatest
      index \<open>k \<le> pos\<close> with \<open>s[k] = c\<close>, and \<open>-1\<close> when there is none\<close>
  "lastIndexOf s c 0 = (if 0 < length s \<and> s ! 0 = c then 0 else - 1)"
| "lastIndexOf s c (Suc k) =
     (if Suc k < length s \<and> s ! Suc k = c then int (Suc k) else lastIndexOf s c k)"

definition isWhiteSpace :: "nat \<Rightarrow> bool" where
  \<comment> \<open>ECMAScript WhiteSpace and LineTerminator: what \<^verbatim>\<open>trim\<close> strips and \<^verbatim>\<open>\s\<close> matches\<close>
  "isWhiteSpace c =
     (c = 0x9 \<or> c = 0xA \<or> c = 0xB \<or> c = 0xC \<or> c = 0xD \<or> c = 0x20 \<or> c = 0xA0
      \<or> c = 0x1680 \<or> (0x2000 \<le> c \<and> c \<le> 0x200A) \<or> c = 0x2028 \<or> c = 0x2029
      \<or> c = 0x202F \<or> c = 0x205F \<or> c = 0x3000 \<or> c = 0xFEFF)"

definition trim :: "jsstring \<Rightarrow> jsstring" where
  \<comment> \<open>\<^verbatim>\<open>s.trim()\<close>\<close>
  "trim s = rev (dropWhile isWhiteSpace (rev (dropWhile isWhiteSpace s)))"

fun decimal :: "nat \<Rightarrow> jsstring" where
  \<comment> \<open>a non-negative integer in a template literal: its decimal digits\<close>
  "decimal n = (if n < 10 then [48 + n] else decimal (n div 10) @ [48 + n mod 10])"

declare decimal.simps [simp del]

section \<open>extractFields\<close>

text \<open>
  \<^verbatim>\<open>interface FormField\<close>. The model follows the version of the functions that has the
  field \<^verbatim>\<open>hint\<close>; \<^verbatim>\<open>src/App.tsx\<close> has the same \<^verbatim>\<open>extractFields\<close> and \<^verbatim>\<open>buildPrompt\<close>
  without that field and its assignments. The field \<^verbatim>\<open>id\<close> is \<open>id_f\<close> here.
\<close>

record formField =
  id_f :: jsstring
  label :: jsstring
  placeholder :: jsstring
  hint :: jsstring
  original :: jsstring

text \<open>
  One result of \<^verbatim>\<open>regex.exec(content)\<close>: \<^verbatim>\<open>match.index\<close>, \<^verbatim>\<open>match[0]\<close> and
  \<^verbatim>\<open>match[1]\<close>.
\<close>

record regexMatch =
  m_index :: nat
  m_0 :: jsstring
  m_1 :: jsstring

subsection \<open>The token pattern\<close>

text \<open>
  \<^verbatim>\<open>const regex = /[\[{]([^\]{}]+)[\]}]/g;\<close>

  The first class is \<open>[\<close> (0x5B) or \<open>{\<close> (0x7B); the group is one or more code units
  other than \<open>]\<close> (0x5D), \<open>{\<close> and \<open>}\<close> (0x7D); the last class is \<open>]\<close> or \<open>}\<close>.
\<close>

definition isOpener :: "nat \<Rightarrow> bool" where
  "isOpener c = (c = 0x5B \<or> c = 0x7B)"

definition isCloser :: "nat \<Rightarrow> bool" where
  "isCloser c = (c = 0x5D \<or> c = 0x7D)"

definition isInner :: "nat \<Rightarrow> bool" where
  "isInner c = (c \<noteq> 0x5D \<and> c \<noteq> 0x7B \<and> c \<noteq> 0x7D)"

text \<open>
  A match attempt at the head of a string. The group is greedy: it takes the longest
  run of inner code units. The code unit after that run is not an inner one, and a
  shorter run would be followed by an inner code unit, which the closing class never
  accepts; so backtracking finds nothing the longest run does not, and the attempt
  succeeds exactly when the longest run is not empty and a closer follows it
  (\<open>matchToken_Some_iff\<close> below: the result is the only way to read a prefix of the
  string as an opener, inner code units and a closer). The result is the group, the
  closer and the rest of the string after the match.
\<close>

fun matchToken :: "jsstring \<Rightarrow> (jsstring \<times> nat \<times> jsstring) option" where
  "matchToken [] = None"
| "matchToken (c # cs) =
     (if isOpener c then
        (case dropWhile isInner cs of
           [] \<Rightarrow> None
         | d # rest \<Rightarrow>
             if takeWhile isInner cs \<noteq> [] \<and> isCloser d
             then Some (takeWhile isInner cs, d, rest) else None)
      else None)"

text \<open>
  The search of \<^verbatim>\<open>exec\<close>: match attempts at \<open>i\<close>, \<open>i + 1\<close>, ... until one succeeds
  or the string ends. The second argument is the string from index \<open>i\<close> on.
\<close>

fun findToken :: "nat \<Rightarrow> jsstring \<Rightarrow> regexMatch option" where
  "findToken i [] = None"
| "findToken i (c # cs) =
     (case matchToken (c # cs) of
        Some (inner, d, rest) \<Rightarrow> Some \<lparr>m_index = i, m_0 = c # inner @ [d], m_1 = inner\<rparr>
      | None \<Rightarrow> findToken (Suc i) cs)"

definition regexExec :: "jsstring \<Rightarrow> nat \<Rightarrow> regexMatch option" where
  \<comment> \<open>\<^verbatim>\<open>regex.exec(content)\<close> with the regex's \<^verbatim>\<open>lastIndex\<close>; \<open>None\<close> is \<^verbatim>\<open>null\<close>\<close>
  "regexExec content lastIndex =
     (if length content < lastIndex then None
      else findToken lastIndex (drop lastIndex content))"

subsection \<open>The loop body\<close>

definition excludedMarker :: "jsstring \<Rightarrow> bool" where
  \<comment> \<open>\<^verbatim>\<open>/^[\<close>U+2460\<^verbatim>\<open>-\<close>U+2469\<^verbatim>\<open>\d]/.test(inner)\<close>: circled digits one to ten, or 0-9\<close>
  "excludedMarker inner =
     (case inner of
        [] \<Rightarrow> False
      | c # _ \<Rightarrow> (0x2460 \<le> c \<and> c \<le> 0x2469) \<or> (0x30 \<le> c \<and> c \<le> 0x39))"

definition word_jouken :: jsstring where
  \<comment> \<open>the source's literal of U+6761 U+4EF6 ("conditions")\<close>
  "word_jouken = [0x6761, 0x4EF6]"

definition word_shutsuryoku_keishiki :: jsstring where
  \<comment> \<open>the source's literal of U+51FA U+529B U+5F62 U+5F0F ("output format")\<close>
  "word_shutsuryoku_keishiki = [0x51FA, 0x529B, 0x5F62, 0x5F0F]"

definition word_nyuuryoku :: jsstring where
  \<comment> \<open>the source's literal of U+5165 U+529B ("input")\<close>
  "word_nyuuryoku = [0x5165, 0x529B]"

definition rei_wide :: jsstring where
  \<comment> \<open>U+4F8B ("example") and the full-width colon U+FF1A\<close>
  "rei_wide = [0x4F8B, 0xFF1A]"

definition rei_ascii :: jsstring where
  \<comment> \<open>U+4F8B and the ASCII colon\<close>
  "rei_ascii = [0x4F8B, 0x3A]"

definition text_koko_ni :: jsstring where
  \<comment> \<open>the placeholder of the "input" rule, eleven Japanese code units\<close>
  "text_koko_ni =
     [0x3053, 0x3053, 0x306B, 0x5165, 0x529B, 0x3057, 0x3066, 0x304F, 0x3060, 0x3055, 0x3044]"

definition text_jiyuu_ni :: jsstring where
  \<comment> \<open>the hint of the "input" rule\<close>
  "text_jiyuu_ni =
     [0x81EA, 0x7531, 0x306B, 0x5165, 0x529B, 0x3057, 0x3066, 0x304F, 0x3060, 0x3055, 0x3044]"

definition text_kara_erande :: jsstring where
  \<comment> \<open>the hint suffix of the choice rule, with its leading space\<close>
  "text_kara_erande =
     [0x20, 0x304B, 0x3089, 0x9078, 0x3093, 0x3067, 0x304F, 0x3060, 0x3055, 0x3044]"

definition text_wo_nyuuryoku :: jsstring where
  \<comment> \<open>the hint suffix of the last rule, with its leading space\<close>
  "text_wo_nyuuryoku =
     [0x20, 0x3092, 0x5165, 0x529B, 0x3057, 0x3066, 0x304F, 0x3060, 0x3055, 0x3044]"

definition isLeadMarker :: "nat \<Rightarrow> bool" where
  \<comment> \<open>the class of \<^verbatim>\<open>/^[-\-...]/\<close>: hyphen, U+30FB, U+203B, U+3010, U+3011\<close>
  "isLeadMarker c = (c = 0x2D \<or> c = 0x30FB \<or> c = 0x203B \<or> c = 0x3010 \<or> c = 0x3011)"

definition isColon :: "nat \<Rightarrow> bool" where
  \<comment> \<open>the class of \<^verbatim>\<open>/[..]$/\<close>: the full-width colon U+FF1A or the ASCII colon\<close>
  "isColon c = (c = 0xFF1A \<or> c = 0x3A)"

definition stripLeadMarker :: "jsstring \<Rightarrow> jsstring" where
  \<comment> \<open>\<^verbatim>\<open>.replace(/^[-\-...]/, "")\<close>: without the \<^verbatim>\<open>m\<close> flag \<^verbatim>\<open>^\<close> is index 0 only\<close>
  "stripLeadMarker s = (case s of [] \<Rightarrow> [] | c # cs \<Rightarrow> if isLeadMarker c then cs else c # cs)"

definition stripTrailColon :: "jsstring \<Rightarrow> jsstring" where
  \<comment> \<open>\<^verbatim>\<open>.replace(/[..]$/, "")\<close>: without the \<^verbatim>\<open>m\<close> flag \<^verbatim>\<open>$\<close> is the end only\<close>
  "stripTrailColon s = (if s \<noteq> [] \<and> isColon (last s) then butlast s else s)"

definition beforeBracket :: "jsstring \<Rightarrow> nat \<Rightarrow> jsstring" where
  "beforeBracket content idx =
     (let lineStart = nat (lastIndexOf content 0xA idx + 1)
      in trim (stripTrailColon (stripLeadMarker (trim (substring content lineStart idx)))))"

definition makeField :: "jsstring \<Rightarrow> regexMatch \<Rightarrow> nat \<Rightarrow> formField" where
  \<comment> \<open>the body of the loop from \<^verbatim>\<open>const lineStart\<close> to the argument of \<^verbatim>\<open>fields.push\<close>\<close>
  "makeField content m n =
     (let inner = m_1 m;
          bb = beforeBracket content (m_index m);
          lbl = (if bb \<noteq> [] then bb else word_nyuuryoku @ [0x20] @ decimal (n + 1));
          fid = ascii ''field_'' @ decimal n
      in if startsWith inner rei_wide \<or> startsWith inner rei_ascii then
           \<lparr>id_f = fid, label = lbl, placeholder = drop 2 inner,
            hint = rei_wide @ drop 2 inner, original = m_0 m\<rparr>
         else if inner = word_nyuuryoku then
           \<lparr>id_f = fid, label = lbl, placeholder = text_koko_ni,
            hint = text_jiyuu_ni, original = m_0 m\<rparr>
         else if includes_s inner 0x2F then
           \<lparr>id_f = fid, label = lbl, placeholder = inner,
            hint = inner @ text_kara_erande, original = m_0 m\<rparr>
         else
           \<lparr>id_f = fid, label = lbl, placeholder = inner,
            hint = inner @ text_wo_nyuuryoku, original = m_0 m\<rparr>)"

subsection \<open>The loop\<close>

text \<open>
  \<^verbatim>\<open>while ((match = regex.exec(content)) !== null) { ... }\<close>

  The state of the loop is the regex's \<^verbatim>\<open>lastIndex\<close>, the counter \<^verbatim>\<open>id\<close> and the
  array \<^verbatim>\<open>fields\<close>. After a match \<^verbatim>\<open>lastIndex\<close> is the index after the match; both
  \<^verbatim>\<open>continue\<close> statements go back to the test. Nothing in the loop's text bounds the
  number of rounds, so the model is a partial function: \<open>None\<close> is a loop that runs
  forever.
\<close>

partial_function (option) extractLoop ::
  "jsstring \<Rightarrow> nat \<Rightarrow> nat \<Rightarrow> formField list \<Rightarrow> formField list option" where
  "extractLoop content lastIndex n flds =
     (case regexExec content lastIndex of
        None \<Rightarrow> Some flds
      | Some m \<Rightarrow>
          if excludedMarker (m_1 m) then
            extractLoop content (m_index m + length (m_0 m)) n flds
          else if m_1 m = word_jouken \<or> m_1 m = word_shutsuryoku_keishiki then
            extractLoop content (m_index m + length (m_0 m)) n flds
          else
            extractLoop content (m_index m + length (m_0 m)) (n + 1)
              (flds @ [makeField content m n]))"

definition extractFields :: "jsstring \<Rightarrow> formField list option" where
  "extractFields content = extractLoop content 0 0 []"

section \<open>buildPrompt\<close>

text \<open>
  \<^verbatim>\<open>result = result.replace(field.original, val);\<close>

  The pattern is a string, so this is \<^verbatim>\<open>String.prototype.replace\<close> with a string
  pattern. When the second argument is a string too, the first occurrence of the
  pattern is found (none: the string is returned as it is), and replaced with the
  expansion of the replacement template (ECMA-262, GetSubstitution).
\<close>

fun findFirst :: "jsstring \<Rightarrow> jsstring \<Rightarrow> (jsstring \<times> jsstring) option" where
  \<comment> \<open>the text before and after the first occurrence of the pattern; an empty pattern
      occurs at index 0\<close>
  "findFirst pat [] = (if pat = [] then Some ([], []) else None)"
| "findFirst pat (c # cs) =
     (if startsWith (c # cs) pat then Some ([], drop (length pat) (c # cs))
      else (case findFirst pat cs of
              None \<Rightarrow> None
            | Some (pre, post) \<Rightarrow> Some (c # pre, post)))"

text \<open>
  The expansion of a replacement template, read from left to right: \<^verbatim>\<open>$$\<close> is a
  dollar sign, \<^verbatim>\<open>$&\<close> the matched text, \<^verbatim>\<open>$`\<close> the text before the match and
  \<^verbatim>\<open>$'\<close> the text after it. A string pattern has no capture groups, so \<^verbatim>\<open>$1\<close>,
  \<^verbatim>\<open>$<name>\<close> and a dollar sign before anything else stand for themselves.
\<close>

fun getSubstitution :: "jsstring \<Rightarrow> jsstring \<Rightarrow> jsstring \<Rightarrow> jsstring \<Rightarrow> jsstring" where
  "getSubstitution matched pre post [] = []"
| "getSubstitution matched pre post [c] = [c]"
| "getSubstitution matched pre post (c # d # template) =
     (if c = 0x24 \<and> d = 0x24 then 0x24 # getSubstitution matched pre post template
      else if c = 0x24 \<and> d = 0x26 then matched @ getSubstitution matched pre post template
      else if c = 0x24 \<and> d = 0x60 then pre @ getSubstitution matched pre post template
      else if c = 0x24 \<and> d = 0x27 then post @ getSubstitution matched pre post template
      else c # getSubstitution matched pre post (d # template))"

definition replace_s :: "jsstring \<Rightarrow> jsstring \<Rightarrow> jsstring \<Rightarrow> jsstring" where
  \<comment> \<open>\<^verbatim>\<open>s.replace(pat, template)\<close>\<close>
  "replace_s s pat template =
     (case findFirst pat s of
        None \<Rightarrow> s
      | Some (pre, post) \<Rightarrow> pre @ getSubstitution pat pre post template @ post)"

text \<open>
  \<^verbatim>\<open>const val = values[field.id] || field.original;\<close>

  \<^verbatim>\<open>values\<close> is a plain object (the state starts as \<^verbatim>\<open>{}\<close> and is copied with a
  spread and a computed key), modelled as the map of its own properties. A key that
  is not an own property is looked up in \<^verbatim>\<open>Object.prototype\<close>: for the names below the
  read gives an inherited function (for \<^verbatim>\<open>__proto__\<close> the prototype object itself),
  which is truthy, and \<^verbatim>\<open>val\<close> is then not a string. Any other missing key reads
  \<^verbatim>\<open>undefined\<close>; \<^verbatim>\<open>undefined\<close> and the empty string are the falsy values here.
\<close>

definition objectPrototypeKeys :: "jsstring list" where
  "objectPrototypeKeys =
     [ascii ''constructor'', ascii ''hasOwnProperty'', ascii ''isPrototypeOf'',
      ascii ''propertyIsEnumerable'', ascii ''toLocaleString'', ascii ''toString'',
      ascii ''valueOf'', ascii ''__proto__'', ascii ''__defineGetter__'',
      ascii ''__defineSetter__'', ascii ''__lookupGetter__'', ascii ''__lookupSetter__'']"

datatype jsvalue = Str jsstring | InheritedMember jsstring

datatype jsError = TypeError

definition fieldValue :: "(jsstring \<rightharpoonup> jsstring) \<Rightarrow> formField \<Rightarrow> jsvalue" where
  "fieldValue values field =
     (case values (id_f field) of
        Some v \<Rightarrow> if v = [] then Str (original field) else Str v
      | None \<Rightarrow>
          if id_f field \<in> set objectPrototypeKeys then InheritedMember (id_f field)
          else Str (original field))"

text \<open>
  \<^verbatim>\<open>result = result.replace(field.original, val);\<close> when \<^verbatim>\<open>val\<close> is not a string
  (ECMA-262, String.prototype.replace). A value that is not callable is converted to a
  string before the search: the prototype object read through \<^verbatim>\<open>__proto__\<close> becomes
  \<^verbatim>\<open>[object Object]\<close>, used as a template. A function is called only when the pattern
  occurs, with \<^verbatim>\<open>this\<close> undefined and the matched text as first argument, and its
  result converted to a string replaces the match as it is: \<^verbatim>\<open>constructor\<close> wraps the
  matched text, \<^verbatim>\<open>toString\<close> returns \<^verbatim>\<open>[object Undefined]\<close>, \<^verbatim>\<open>isPrototypeOf\<close> returns
  \<^verbatim>\<open>false\<close>, and every other member first converts \<^verbatim>\<open>this\<close> to an object, which
  throws a TypeError.
\<close>

definition callInherited :: "jsstring \<Rightarrow> jsstring \<Rightarrow> jsError + jsstring" where
  "callInherited key matched =
     (if key = ascii ''constructor'' then Inr matched
      else if key = ascii ''toString'' then Inr (ascii ''[object Undefined]'')
      else if key = ascii ''isPrototypeOf'' then Inr (ascii ''false'')
      else Inl TypeError)"

definition replaceWith :: "jsstring \<Rightarrow> jsstring \<Rightarrow> jsvalue \<Rightarrow> jsError + jsstring" where
  \<comment> \<open>\<^verbatim>\<open>s.replace(pat, val)\<close>; \<open>Inl\<close> is a thrown error\<close>
  "replaceWith s pat val =
     (case val of
        Str template \<Rightarrow> Inr (replace_s s pat template)
      | InheritedMember key \<Rightarrow>
          if key = ascii ''__proto__'' then Inr (replace_s s pat (ascii ''[object Object]''))
          else (case findFirst pat s of
                  None \<Rightarrow> Inr s
                | Some (pre, post) \<Rightarrow>
                    (case callInherited key pat of
                       Inl e \<Rightarrow> Inl e
                     | Inr r \<Rightarrow> Inr (pre @ r @ post))))"

text \<open>
  \<^verbatim>\<open>let result = content; for (const field of fields) { ... } return result;\<close>
  The first argument is \<^verbatim>\<open>result\<close>, which starts as \<^verbatim>\<open>content\<close>; an error thrown by
  \<^verbatim>\<open>replace\<close> leaves the function.
\<close>

fun buildPrompt ::
  "jsstring \<Rightarrow> formField list \<Rightarrow> (jsstring \<rightharpoonup> jsstring) \<Rightarrow> jsError + jsstring" where
  "buildPrompt result [] values = Inr result"
| "buildPrompt result (field # rest) values =
     (case replaceWith result (original field) (fieldValue values field) of
        Inl e \<Rightarrow> Inl e
      | Inr result' \<Rightarrow> buildPrompt result' rest values)"

section \<open>parsePromptSections\<close>

text \<open>
  The icon of a section is \<^verbatim>\<open>sectionIconMap[title] || "..."\<close>. The map is an object
  literal, so a title that names a member of \<^verbatim>\<open>Object.prototype\<close> reads that
  inherited function or object, which is truthy: the icon is then not a string.
\<close>

datatype icon = IconText jsstring | InheritedProperty jsstring

record promptSection =
  s_title :: jsstring
  s_content :: jsstring
  s_icon :: icon

definition title_anata_no_yakuwari :: jsstring where
  \<comment> \<open>the source's literal of U+3042 U+306A U+305F U+306E U+5F79 U+5272 ("your role")\<close>
  "title_anata_no_yakuwari = [0x3042, 0x306A, 0x305F, 0x306E, 0x5F79, 0x5272]"

definition icon_robot :: jsstring where
  \<comment> \<open>U+1F916 as its surrogate pair\<close>
  "icon_robot = [0xD83E, 0xDD16]"

definition icon_clipboard :: jsstring where
  \<comment> \<open>U+1F4CB as its surrogate pair\<close>
  "icon_clipboard = [0xD83D, 0xDCCB]"

definition icon_outbox :: jsstring where
  \<comment> \<open>U+1F4E4 as its surrogate pair\<close>
  "icon_outbox = [0xD83D, 0xDCE4]"

definition icon_page :: jsstring where
  \<comment> \<open>U+1F4C4 as its surrogate pair\<close>
  "icon_page = [0xD83D, 0xDCC4]"

definition sectionIcon :: "jsstring \<Rightarrow> icon" where
  \<comment> \<open>\<^verbatim>\<open>sectionIconMap[title] || "..."\<close>\<close>
  "sectionIcon t =
     (if t = title_anata_no_yakuwari then IconText icon_robot
      else if t = word_jouken then IconText icon_clipboard
      else if t = word_shutsuryoku_keishiki then IconText icon_outbox
      else if t \<in> set objectPrototypeKeys then InheritedProperty t
      else IconText icon_page)"

subsection \<open>The split\<close>

text \<open>
  \<^verbatim>\<open>content.split(/(?=\<close>U+3010\<^verbatim>\<open>[^\<close>U+3011\<^verbatim>\<open>]+\<close>U+3011\<^verbatim>\<open>)/)\<close>

  The separator is a lookahead and matches the empty string at an index where a
  heading starts: U+3010, one or more code units other than U+3011, then U+3011. As
  for the token pattern, the greedy run is the only one that can be followed by
  U+3011. The pattern has no \<^verbatim>\<open>^\<close> and no \<^verbatim>\<open>m\<close> flag.
\<close>

definition notClosingMark :: "nat \<Rightarrow> bool" where
  "notClosingMark c = (c \<noteq> 0x3011)"

definition headingAt :: "jsstring \<Rightarrow> bool" where
  "headingAt s =
     (case s of
        [] \<Rightarrow> False
      | c # cs \<Rightarrow> c = 0x3010 \<and> takeWhile notClosingMark cs \<noteq> []
                 \<and> dropWhile notClosingMark cs \<noteq> [])"

text \<open>
  The loop of \<^verbatim>\<open>RegExp.prototype[Symbol.split]\<close> (ECMA-262) on a string that is not
  empty: \<open>p\<close> is the start of the chunk being built, \<open>q\<close> the index where the
  separator is tried, \<open>A\<close> the chunks so far. The separator matches the empty string,
  so the end of a match at \<open>q\<close> is \<open>q\<close>: a match at \<open>q = p\<close> is skipped, a match at
  \<open>q > p\<close> closes the chunk \<open>S[p..q)\<close> and the next chunk starts at \<open>q\<close>. The limit
  of the split is \<open>2^32 - 1\<close> chunks, more than a string has code units.
\<close>

function splitLoop :: "jsstring \<Rightarrow> nat \<Rightarrow> nat \<Rightarrow> jsstring list \<Rightarrow> jsstring list" where
  "splitLoop S p q A =
     (if q < length S then
        (if headingAt (drop q S) then
           (if q = p then splitLoop S p (q + 1) A
            else splitLoop S q q (A @ [substring S p q]))
         else splitLoop S p (q + 1) A)
      else A @ [substring S p (length S)])"
  by pat_completeness auto
termination
  by (relation "measure (\<lambda>(S, p, q, A). 2 * (length S - q) + (if p = q then 0 else 1))") auto

declare splitLoop.simps [simp del]

definition split_s :: "jsstring \<Rightarrow> jsstring list" where
  \<comment> \<open>on the empty string the result is \<^verbatim>\<open>[""]\<close> unless the separator matches it\<close>
  "split_s S = (if S = [] then (if headingAt [] then [] else [S]) else splitLoop S 0 0 [])"

subsection \<open>The chunks\<close>

text \<open>
  \<^verbatim>\<open>part.match(/^\<close>U+3010\<^verbatim>\<open>([^\<close>U+3011\<^verbatim>\<open>]+)\<close>U+3011\<^verbatim>\<open>\n?([\s\S]*)/)\<close>: the title and the
  text after the heading and one optional line feed; \<open>None\<close> is \<^verbatim>\<open>null\<close>.
\<close>

definition markerMatch :: "jsstring \<Rightarrow> (jsstring \<times> jsstring) option" where
  "markerMatch part =
     (case part of
        [] \<Rightarrow> None
      | c # cs \<Rightarrow>
          if c = 0x3010 then
            (case dropWhile notClosingMark cs of
               [] \<Rightarrow> None
             | d # rest \<Rightarrow>
                 if takeWhile notClosingMark cs \<noteq> [] then
                   Some (takeWhile notClosingMark cs,
                         (case rest of [] \<Rightarrow> [] | e # r \<Rightarrow> if e = 0xA then r else e # r))
                 else None)
          else None)"

fun parseParts :: "jsstring list \<Rightarrow> promptSection list \<Rightarrow> promptSection list" where
  \<comment> \<open>\<^verbatim>\<open>for (const part of parts) { ... }\<close>, the second argument being \<^verbatim>\<open>sections\<close>\<close>
  "parseParts [] sections = sections"
| "parseParts (part # parts) sections =
     (case markerMatch part of
        Some (t, rest) \<Rightarrow>
          if trim rest \<noteq> [] then
            parseParts parts
              (sections @ [\<lparr>s_title = t, s_content = trim rest, s_icon = sectionIcon t\<rparr>])
          else parseParts parts sections
      | None \<Rightarrow>
          if trim part \<noteq> [] then
            parseParts parts
              (sections @ [\<lparr>s_title = title_anata_no_yakuwari, s_content = trim part,
                            s_icon = IconText icon_robot\<rparr>])
          else parseParts parts sections)"

definition parsePromptSections :: "jsstring \<Rightarrow> promptSection list" where
  "parsePromptSections content = parseParts (split_s content) []"

section \<open>Notions used in the statements\<close>

definition innerText :: "jsstring \<Rightarrow> jsstring" where
  \<comment> \<open>a token without its two delimiters\<close>
  "innerText t = butlast (tl t)"

definition isToken :: "jsstring \<Rightarrow> bool" where
  \<comment> \<open>the shape of a token: an opener, a run of inner code units that is not empty, a
      closer; nothing relates the closer to the opener\<close>
  "isToken t =
     (case t of
        [] \<Rightarrow> False
      | c # r \<Rightarrow> isOpener c \<and> r \<noteq> [] \<and> isCloser (last r) \<and> butlast r \<noteq> []
                 \<and> list_all isInner (butlast r))"

fun cutAt :: "jsstring \<Rightarrow> nat \<Rightarrow> nat list \<Rightarrow> jsstring list" where
  \<comment> \<open>the string from index \<open>p\<close> on, cut at the given increasing indices\<close>
  "cutAt S p [] = [substring S p (length S)]"
| "cutAt S p (j # js) = substring S p j # cutAt S j js"

definition tokenAtHead :: "jsstring \<Rightarrow> jsstring option" where
  \<comment> \<open>the span of token shape that starts at the head of the string: the first prefix
      of that shape\<close>
  "tokenAtHead s = find isToken (map (\<lambda>n. take n s) [0..<Suc (length s)])"

fun spansFrom :: "nat \<Rightarrow> jsstring \<Rightarrow> jsstring list" where
  \<comment> \<open>the spans of token shape met from left to right, the search going on behind each
      span; the first argument counts the code units still inside the last span\<close>
  "spansFrom k [] = []"
| "spansFrom (Suc k) (c # cs) = spansFrom k cs"
| "spansFrom 0 (c # cs) =
     (case tokenAtHead (c # cs) of
        None \<Rightarrow> spansFrom 0 cs
      | Some t \<Rightarrow> t # spansFrom (length t - 1) cs)"

definition tokenSpans :: "jsstring \<Rightarrow> jsstring list" where
  "tokenSpans s = spansFrom 0 s"

definition skippedInner :: "jsstring \<Rightarrow> bool" where
  \<comment> \<open>inner text that begins with a circled number or an ASCII digit, or is one of the
      two reserved words\<close>
  "skippedInner x =
     ((x \<noteq> [] \<and> ((0x2460 \<le> hd x \<and> hd x \<le> 0x2469) \<or> (0x30 \<le> hd x \<and> hd x \<le> 0x39)))
      \<or> x = [0x6761, 0x4EF6] \<or> x = [0x51FA, 0x529B, 0x5F62, 0x5F0F])"

definition literalReplace :: "jsstring \<Rightarrow> jsstring \<Rightarrow> jsstring \<Rightarrow> jsstring" where
  \<comment> \<open>the first occurrence of the pattern replaced with the value as it is\<close>
  "literalReplace s pat v =
     (case findFirst pat s of
        None \<Rightarrow> s
      | Some (pre, post) \<Rightarrow> pre @ v @ post)"

section \<open>Evaluation\<close>

lemmas extract_eval = extractFields_def extractLoop.simps regexExec_def ascii_def makeField_def
  beforeBracket_def excludedMarker_def isOpener_def isCloser_def isInner_def trim_def
  isWhiteSpace_def substring_def stripLeadMarker_def stripTrailColon_def isLeadMarker_def
  isColon_def startsWith_def includes_s_def rei_wide_def rei_ascii_def word_jouken_def
  word_shutsuryoku_keishiki_def word_nyuuryoku_def text_koko_ni_def text_jiyuu_ni_def
  text_kara_erande_def text_wo_nyuuryoku_def decimal.simps Let_def innerText_def

lemmas build_eval = replace_s_def replaceWith_def callInherited_def fieldValue_def
  objectPrototypeKeys_def startsWith_def ascii_def literalReplace_def

lemmas sections_eval = parsePromptSections_def split_s_def splitLoop.simps headingAt_def
  notClosingMark_def markerMatch_def sectionIcon_def objectPrototypeKeys_def
  title_anata_no_yakuwari_def icon_robot_def icon_clipboard_def icon_outbox_def icon_page_def
  trim_def isWhiteSpace_def substring_def ascii_def word_jouken_def
  word_shutsuryoku_keishiki_def

section \<open>The token pattern and the search\<close>

lemma isCloser_not_isInner: "isCloser d \<Longrightarrow> \<not> isInner d"
  by (auto simp: isCloser_def isInner_def)

lemma matchToken_Some_iff:
  "matchToken s = Some (inner, d, rest) \<longleftrightarrow>
     (\<exists>c. s = c # inner @ d # rest \<and> isOpener c \<and> inner \<noteq> [] \<and> list_all isInner inner \<and> isCloser d)"
proof
  assume a: "matchToken s = Some (inner, d, rest)"
  then obtain c cs where s: "s = c # cs" by (cases s) auto
  from a s have op: "isOpener c" by (auto split: if_splits)
  from a s op have dw: "dropWhile isInner cs = d # rest"
    and tw: "takeWhile isInner cs = inner" and ne: "inner \<noteq> []" and cl: "isCloser d"
    by (auto split: if_splits list.splits)
  have "cs = takeWhile isInner cs @ dropWhile isInner cs" by simp
  then have cs: "cs = inner @ d # rest" using dw tw by simp
  have "list_all isInner (takeWhile isInner cs)"
    by (simp add: list_all_iff) (meson set_takeWhileD)
  then have "list_all isInner inner" using tw by simp
  with s cs op ne cl
  show "\<exists>c. s = c # inner @ d # rest \<and> isOpener c \<and> inner \<noteq> [] \<and> list_all isInner inner \<and> isCloser d"
    by blast
next
  assume "\<exists>c. s = c # inner @ d # rest \<and> isOpener c \<and> inner \<noteq> [] \<and> list_all isInner inner \<and> isCloser d"
  then obtain c where s: "s = c # inner @ d # rest" and op: "isOpener c" and ne: "inner \<noteq> []"
    and al: "list_all isInner inner" and cl: "isCloser d" by blast
  from al have al': "\<And>x. x \<in> set inner \<Longrightarrow> isInner x" by (simp add: list_all_iff)
  have nd: "\<not> isInner d" using cl by (rule isCloser_not_isInner)
  have tw: "takeWhile isInner (inner @ d # rest) = inner"
    using al' nd by (simp add: takeWhile_append2)
  have dw: "dropWhile isInner (inner @ d # rest) = d # rest"
    using al' nd by (simp add: dropWhile_append2)
  show "matchToken s = Some (inner, d, rest)"
    using s op ne cl tw dw by simp
qed

lemma findToken_Some:
  "findToken i s = Some m \<Longrightarrow>
     \<exists>k c d rest. m_index m = i + k \<and> k < length s \<and> drop k s = m_0 m @ rest
        \<and> m_0 m = c # m_1 m @ [d] \<and> matchToken (drop k s) = Some (m_1 m, d, rest)
        \<and> (\<forall>j<k. matchToken (drop j s) = None)"
proof (induction s arbitrary: i)
  case Nil
  then show ?case by simp
next
  case (Cons c cs)
  show ?case
  proof (cases "matchToken (c # cs)")
    case None
    with Cons.prems have "findToken (Suc i) cs = Some m" by simp
    from Cons.IH[OF this] obtain k c' d rest where
      k: "m_index m = Suc i + k" "k < length cs" "drop k cs = m_0 m @ rest"
         "m_0 m = c' # m_1 m @ [d]" "matchToken (drop k cs) = Some (m_1 m, d, rest)"
         "\<forall>j<k. matchToken (drop j cs) = None" by blast
    have "\<forall>j<Suc k. matchToken (drop j (c # cs)) = None"
    proof (intro allI impI)
      fix j assume "j < Suc k"
      then show "matchToken (drop j (c # cs)) = None"
        using None k(6) by (cases j) auto
    qed
    with k show ?thesis
      by (intro exI[of _ "Suc k"] exI[of _ c'] exI[of _ d] exI[of _ rest]) simp
  next
    case (Some t)
    obtain inner d rest where t: "t = (inner, d, rest)" by (cases t) auto
    from Some t Cons.prems have m: "m = \<lparr>m_index = i, m_0 = c # inner @ [d], m_1 = inner\<rparr>"
      by simp
    from Some t have "c # cs = c # inner @ d # rest"
      using matchToken_Some_iff[of "c # cs" inner d rest] by auto
    with Some t m show ?thesis
      by (intro exI[of _ 0] exI[of _ c] exI[of _ d] exI[of _ rest]) simp
  qed
qed

lemma findToken_None_iff:
  "findToken i s = None \<longleftrightarrow> (\<forall>j<length s. matchToken (drop j s) = None)"
proof (induction s arbitrary: i)
  case Nil
  then show ?case by simp
next
  case (Cons c cs)
  show ?case
  proof (cases "matchToken (c # cs)")
    case None
    have "(\<forall>j<length (c # cs). matchToken (drop j (c # cs)) = None)
          \<longleftrightarrow> (\<forall>j<length cs. matchToken (drop j cs) = None)"
    proof
      assume a: "\<forall>j<length (c # cs). matchToken (drop j (c # cs)) = None"
      show "\<forall>j<length cs. matchToken (drop j cs) = None"
      proof (intro allI impI)
        fix j assume "j < length cs"
        then have "Suc j < length (c # cs)" by simp
        with a have "matchToken (drop (Suc j) (c # cs)) = None" by blast
        then show "matchToken (drop j cs) = None" by simp
      qed
    next
      assume a: "\<forall>j<length cs. matchToken (drop j cs) = None"
      show "\<forall>j<length (c # cs). matchToken (drop j (c # cs)) = None"
      proof (intro allI impI)
        fix j assume "j < length (c # cs)"
        then show "matchToken (drop j (c # cs)) = None"
          using None a by (cases j) auto
      qed
    qed
    with None Cons.IH[of "Suc i"] show ?thesis by simp
  next
    case (Some t)
    then have "findToken i (c # cs) \<noteq> None" by (auto split: prod.splits)
    moreover have "\<not> (\<forall>j<length (c # cs). matchToken (drop j (c # cs)) = None)"
    proof
      assume a: "\<forall>j<length (c # cs). matchToken (drop j (c # cs)) = None"
      have "0 < length (c # cs)" by simp
      with a have "matchToken (drop 0 (c # cs)) = None" by blast
      with Some show False by (simp del: matchToken.simps)
    qed
    ultimately show ?thesis by blast
  qed
qed


lemma regexExec_Some:
  assumes "regexExec content li = Some m"
  shows "\<exists>c d rest. li \<le> m_index m \<and> m_index m < length content
           \<and> m_0 m = c # m_1 m @ [d] \<and> drop (m_index m) content = m_0 m @ rest
           \<and> matchToken (drop (m_index m) content) = Some (m_1 m, d, rest)
           \<and> (\<forall>j. li \<le> j \<and> j < m_index m \<longrightarrow> matchToken (drop j content) = None)"
proof -
  from assms have le: "li \<le> length content" and f: "findToken li (drop li content) = Some m"
    by (auto simp: regexExec_def split: if_splits)
  from findToken_Some[OF f] obtain k c d rest where
    k: "m_index m = li + k" "k < length (drop li content)"
       "m_0 m = c # m_1 m @ [d]" "matchToken (drop k (drop li content)) = Some (m_1 m, d, rest)"
       "\<forall>j<k. matchToken (drop j (drop li content)) = None"
       "drop k (drop li content) = m_0 m @ rest" by blast
  have dd: "\<And>j. drop j (drop li content) = drop (li + j) content"
    by (simp add: add.commute)
  have none: "\<forall>j. li \<le> j \<and> j < m_index m \<longrightarrow> matchToken (drop j content) = None"
  proof (intro allI impI)
    fix j assume j: "li \<le> j \<and> j < m_index m"
    then have "j - li < k" using k(1) by arith
    with k(5) have "matchToken (drop (j - li) (drop li content)) = None" by blast
    then show "matchToken (drop j content) = None" using j by (simp add: dd)
  qed
  from k(1,2) have "m_index m < length content" by simp
  moreover from k(1) have "li \<le> m_index m" by simp
  moreover from k(4) k(1) have "matchToken (drop (m_index m) content) = Some (m_1 m, d, rest)"
    by (simp add: add.commute)
  moreover from k(6) k(1) have "drop (m_index m) content = m_0 m @ rest"
    by (simp add: add.commute)
  ultimately show ?thesis using k(3) none by blast
qed

lemma regexExec_advances:
  "regexExec content li = Some m \<Longrightarrow> li < m_index m + length (m_0 m) \<and> li \<le> length content"
  using regexExec_Some[of content li m] by auto

lemma regexExec_None_iff:
  "regexExec content li = None \<longleftrightarrow>
     (\<forall>j. li \<le> j \<and> j < length content \<longrightarrow> matchToken (drop j content) = None)"
proof (cases "length content < li")
  case True
  then show ?thesis by (simp add: regexExec_def)
next
  case False
  have dd: "\<And>j. drop j (drop li content) = drop (li + j) content"
    by (simp add: add.commute)
  have "(\<forall>j<length (drop li content). matchToken (drop j (drop li content)) = None)
        \<longleftrightarrow> (\<forall>j. li \<le> j \<and> j < length content \<longrightarrow> matchToken (drop j content) = None)"
  proof
    assume a: "\<forall>j<length (drop li content). matchToken (drop j (drop li content)) = None"
    show "\<forall>j. li \<le> j \<and> j < length content \<longrightarrow> matchToken (drop j content) = None"
    proof (intro allI impI)
      fix j assume j: "li \<le> j \<and> j < length content"
      then have "j - li < length (drop li content)" by simp arith
      with a have "matchToken (drop (j - li) (drop li content)) = None" by blast
      then show "matchToken (drop j content) = None" using j by (simp add: dd)
    qed
  next
    assume a: "\<forall>j. li \<le> j \<and> j < length content \<longrightarrow> matchToken (drop j content) = None"
    show "\<forall>j<length (drop li content). matchToken (drop j (drop li content)) = None"
    proof (intro allI impI)
      fix j assume "j < length (drop li content)"
      then have "li \<le> li + j \<and> li + j < length content" by simp
      with a have "matchToken (drop (li + j) content) = None" by blast
      then show "matchToken (drop j (drop li content)) = None" by (simp add: add.commute)
    qed
  qed
  with False show ?thesis by (simp add: regexExec_def findToken_None_iff)
qed

lemma extractLoop_terminates:
  "\<exists>r. extractLoop content li n flds = Some r"
proof (induction "Suc (length content) - li" arbitrary: li n flds rule: less_induct)
  case less
  show ?case
  proof (cases "regexExec content li")
    case None
    then show ?thesis by (subst extractLoop.simps) simp
  next
    case (Some m)
    from regexExec_advances[OF Some]
    have "Suc (length content) - (m_index m + length (m_0 m)) < Suc (length content) - li"
      by arith
    from less[OF this]
    have ih: "\<And>n flds. \<exists>r. extractLoop content (m_index m + length (m_0 m)) n flds = Some r"
      by blast
    show ?thesis
      by (subst extractLoop.simps) (simp add: Some ih)
  qed
qed

lemma extractLoop_invariant:
  assumes run: "extractLoop content li n flds = Some r"
    and init: "P flds"
    and step: "\<And>li m k fs. regexExec content li = Some m \<Longrightarrow> \<not> excludedMarker (m_1 m) \<Longrightarrow>
                 m_1 m \<noteq> word_jouken \<Longrightarrow> m_1 m \<noteq> word_shutsuryoku_keishiki \<Longrightarrow>
                 P fs \<Longrightarrow> P (fs @ [makeField content m k])"
  shows "P r"
  using run init
proof (induction "Suc (length content) - li" arbitrary: li n flds rule: less_induct)
  case less
  show ?case
  proof (cases "regexExec content li")
    case None
    with less.prems show ?thesis by (subst (asm) extractLoop.simps) simp
  next
    case (Some m)
    from regexExec_advances[OF Some]
    have dec: "Suc (length content) - (m_index m + length (m_0 m)) < Suc (length content) - li"
      by arith
    note ih = less.hyps[OF dec]
    from less.prems(1) have run':
      "(if excludedMarker (m_1 m) then
            extractLoop content (m_index m + length (m_0 m)) n flds
          else if m_1 m = word_jouken \<or> m_1 m = word_shutsuryoku_keishiki then
            extractLoop content (m_index m + length (m_0 m)) n flds
          else
            extractLoop content (m_index m + length (m_0 m)) (n + 1)
              (flds @ [makeField content m n])) = Some r"
      by (subst (asm) extractLoop.simps) (simp add: Some)
    show ?thesis
    proof (cases "excludedMarker (m_1 m) \<or> m_1 m = word_jouken \<or> m_1 m = word_shutsuryoku_keishiki")
      case True
      with run' have "extractLoop content (m_index m + length (m_0 m)) n flds = Some r"
        by (auto split: if_splits)
      from ih[OF this less.prems(2)] show ?thesis .
    next
      case False
      with run' have r: "extractLoop content (m_index m + length (m_0 m)) (n + 1)
              (flds @ [makeField content m n]) = Some r"
        by (auto split: if_splits)
      from False have "P (flds @ [makeField content m n])"
        using step[OF Some _ _ _ less.prems(2)] by blast
      from ih[OF r this] show ?thesis .
    qed
  qed
qed

lemma original_makeField: "original (makeField content m n) = m_0 m"
  by (simp add: makeField_def Let_def)

section \<open>Strings without tokens\<close>




text \<open>
  C7: for the body \<^verbatim>\<open>Describe: [\<close>U+4F8B U+FF1A\<^verbatim>\<open>a short summary]\<close> extractFields
  returns exactly one field, with label \<^verbatim>\<open>Describe\<close> (the text before the token on its
  line, trimmed, without the colon at its end) and placeholder \<^verbatim>\<open>a short summary\<close>
  (the inner text without the example marker).
\<close>

theorem example_placeholder_scenario:
  "extractFields (ascii ''Describe: ['' @ rei_wide @ ascii ''a short summary]'') =
     Some [\<lparr>id_f = ascii ''field_0'', label = ascii ''Describe'',
            placeholder = ascii ''a short summary'',
            hint = rei_wide @ ascii ''a short summary'',
            original = ascii ''['' @ rei_wide @ ascii ''a short summary]''\<rparr>]"
  by (simp add: extract_eval)

section \<open>The fields of a body\<close>

lemma regexExec_shape:
  assumes "regexExec s li = Some m"
  shows "\<exists>c d. m_0 m = c # m_1 m @ [d] \<and> isOpener c \<and> m_1 m \<noteq> [] \<and> list_all isInner (m_1 m)
            \<and> isCloser d"
proof -
  from regexExec_Some[OF assms] obtain c d rest where
    a: "m_0 m = c # m_1 m @ [d]" "drop (m_index m) s = m_0 m @ rest"
       "matchToken (drop (m_index m) s) = Some (m_1 m, d, rest)"
    by blast
  from a(3) obtain c' where b: "drop (m_index m) s = c' # m_1 m @ d # rest" "isOpener c'"
      "m_1 m \<noteq> []" "list_all isInner (m_1 m)" "isCloser d"
    using matchToken_Some_iff[of "drop (m_index m) s" "m_1 m" d rest] by blast
  from a(1,2) b(1) have "c = c'" by simp
  with a(1) b show ?thesis by blast
qed

lemma fields_made:
  assumes "extractFields s = Some fs" and "f \<in> set fs"
  shows "\<exists>li m k. regexExec s li = Some m \<and> f = makeField s m k \<and> \<not> excludedMarker (m_1 m)
           \<and> m_1 m \<noteq> word_jouken \<and> m_1 m \<noteq> word_shutsuryoku_keishiki"
proof -
  let ?P = "\<lambda>fs :: formField list. \<forall>f\<in>set fs. \<exists>li m k. regexExec s li = Some m
      \<and> f = makeField s m k
      \<and> \<not> excludedMarker (m_1 m) \<and> m_1 m \<noteq> word_jouken \<and> m_1 m \<noteq> word_shutsuryoku_keishiki"
  from assms(1) have run: "extractLoop s 0 0 [] = Some fs" by (simp add: extractFields_def)
  have "?P fs"
  proof (rule extractLoop_invariant[where P = ?P, OF run])
    show "?P []" by simp
  next
    fix li m k fs'
    assume "regexExec s li = Some m" "\<not> excludedMarker (m_1 m)" "m_1 m \<noteq> word_jouken"
      "m_1 m \<noteq> word_shutsuryoku_keishiki" "?P fs'"
    then show "?P (fs' @ [makeField s m k])"
      by auto
  qed
  with assms(2) show ?thesis by blast
qed

lemma innerText_token: "innerText (c # inner @ [d]) = inner"
  by (simp add: innerText_def butlast_append)

lemma isToken_shape:
  "isToken t \<longleftrightarrow> (\<exists>c inner d. t = c # inner @ [d] \<and> isOpener c \<and> inner \<noteq> []
                      \<and> list_all isInner inner \<and> isCloser d)"
proof
  assume a: "isToken t"
  then obtain c r where t: "t = c # r" by (cases t) (auto simp: isToken_def)
  from a t have r: "isOpener c" "r \<noteq> []" "isCloser (last r)" "butlast r \<noteq> []"
      "list_all isInner (butlast r)" by (auto simp: isToken_def)
  from r(2) have "r = butlast r @ [last r]" by simp
  with t r show "\<exists>c inner d. t = c # inner @ [d] \<and> isOpener c \<and> inner \<noteq> []
                      \<and> list_all isInner inner \<and> isCloser d" by metis
next
  assume "\<exists>c inner d. t = c # inner @ [d] \<and> isOpener c \<and> inner \<noteq> []
                      \<and> list_all isInner inner \<and> isCloser d"
  then show "isToken t" by (auto simp: isToken_def butlast_append)
qed

lemma matchToken_isToken:
  "matchToken s \<noteq> None \<longleftrightarrow> (\<exists>t rest. s = t @ rest \<and> isToken t)"
proof
  assume "matchToken s \<noteq> None"
  then obtain inner d rest where "matchToken s = Some (inner, d, rest)" by auto
  then obtain c where c: "s = c # inner @ d # rest" "isOpener c" "inner \<noteq> []"
      "list_all isInner inner" "isCloser d"
    using matchToken_Some_iff[of s inner d rest] by blast
  then have "isToken (c # inner @ [d])" using isToken_shape by blast
  moreover from c(1) have "s = (c # inner @ [d]) @ rest" by simp
  ultimately show "\<exists>t rest. s = t @ rest \<and> isToken t" by blast
next
  assume "\<exists>t rest. s = t @ rest \<and> isToken t"
  then obtain t rest where s: "s = t @ rest" and t: "isToken t" by blast
  from t obtain c inner d where c: "t = c # inner @ [d]" "isOpener c" "inner \<noteq> []"
      "list_all isInner inner" "isCloser d" using isToken_shape by blast
  from s c(1) have "s = c # inner @ d # rest" by simp
  with c have "matchToken s = Some (inner, d, rest)"
    using matchToken_Some_iff[of s inner d rest] by blast
  then show "matchToken s \<noteq> None" by simp
qed

lemma regexExec_token:
  assumes "regexExec s li = Some m"
  shows "li \<le> m_index m \<and> isToken (m_0 m) \<and> m_1 m = innerText (m_0 m)
         \<and> take (length (m_0 m)) (drop (m_index m) s) = m_0 m
         \<and> (\<forall>j. li \<le> j \<and> j < m_index m \<longrightarrow> matchToken (drop j s) = None)"
proof -
  from regexExec_shape[OF assms] obtain c d where
    sh: "m_0 m = c # m_1 m @ [d]" "isOpener c" "m_1 m \<noteq> []" "list_all isInner (m_1 m)"
        "isCloser d" by blast
  then have tok: "isToken (m_0 m)" using isToken_shape by blast
  from sh(1) have inn: "m_1 m = innerText (m_0 m)" by (simp add: innerText_token)
  from regexExec_Some[OF assms] obtain rest where
    r: "li \<le> m_index m" "drop (m_index m) s = m_0 m @ rest"
       "\<forall>j. li \<le> j \<and> j < m_index m \<longrightarrow> matchToken (drop j s) = None" by blast
  from r(2) have "take (length (m_0 m)) (drop (m_index m) s) = m_0 m" by simp
  with tok inn r show ?thesis by blast
qed

section \<open>Which spans are tokens\<close>

text \<open>
  The span of token shape at the head of a string is unique, a match attempt finds
  exactly it, and the loop's successive searches meet the spans of \<open>tokenSpans\<close> one
  after the other.
\<close>

lemma token_prefix_unique:
  assumes "isToken t" "s = t @ r" "isToken t'" "s = t' @ r'"
  shows "t = t'"
proof -
  from assms(1) obtain c inner d where t: "t = c # inner @ [d]" "isOpener c" "inner \<noteq> []"
      "list_all isInner inner" "isCloser d" using isToken_shape by blast
  from assms(3) obtain c' inner' d' where t': "t' = c' # inner' @ [d']" "isOpener c'"
      "inner' \<noteq> []" "list_all isInner inner'" "isCloser d'" using isToken_shape by blast
  from t assms(2) have "matchToken s = Some (inner, d, r)"
    using matchToken_Some_iff[of s inner d r] by auto
  moreover from t' assms(4) have "matchToken s = Some (inner', d', r')"
    using matchToken_Some_iff[of s inner' d' r'] by auto
  ultimately have "inner = inner'" "d = d'" by simp_all
  moreover from assms(2,4) t(1) t'(1) have "c = c'" by simp
  ultimately show ?thesis using t(1) t'(1) by simp
qed

lemma find_Some_holds: "find P xs = Some x \<Longrightarrow> P x \<and> x \<in> set xs"
  by (induction xs) (auto split: if_splits)

lemma prefix_listed:
  "t \<in> set (map (\<lambda>n. take n s) [0..<Suc (length s)]) \<longleftrightarrow> (\<exists>rest. s = t @ rest)"
proof
  assume "t \<in> set (map (\<lambda>n. take n s) [0..<Suc (length s)])"
  then obtain n where "t = take n s" by (auto simp del: upt_Suc)
  then have "s = t @ drop n s" by simp
  then show "\<exists>rest. s = t @ rest" by blast
next
  assume "\<exists>rest. s = t @ rest"
  then obtain rest where s: "s = t @ rest" by blast
  then have "take (length t) s = t" by simp
  moreover have "length t \<in> set [0..<Suc (length s)]" using s by (simp del: upt_Suc)
  ultimately show "t \<in> set (map (\<lambda>n. take n s) [0..<Suc (length s)])"
    by (simp only: set_map) (metis imageI)
qed

lemma tokenAtHead_Some_iff:
  "tokenAtHead s = Some t \<longleftrightarrow> isToken t \<and> (\<exists>rest. s = t @ rest)"
proof
  assume "tokenAtHead s = Some t"
  then have "isToken t \<and> t \<in> set (map (\<lambda>n. take n s) [0..<Suc (length s)])"
    unfolding tokenAtHead_def by (rule find_Some_holds)
  then show "isToken t \<and> (\<exists>rest. s = t @ rest)" by (simp only: prefix_listed)
next
  assume a: "isToken t \<and> (\<exists>rest. s = t @ rest)"
  then obtain rest where s: "s = t @ rest" and tok: "isToken t" by blast
  from a have "t \<in> set (map (\<lambda>n. take n s) [0..<Suc (length s)])"
    by (simp only: prefix_listed)
  with tok have "tokenAtHead s \<noteq> None"
    unfolding tokenAtHead_def find_None_iff by blast
  then obtain t' where t': "tokenAtHead s = Some t'" by auto
  then have "isToken t' \<and> t' \<in> set (map (\<lambda>n. take n s) [0..<Suc (length s)])"
    unfolding tokenAtHead_def by (rule find_Some_holds)
  then have tok': "isToken t'" and "\<exists>rest. s = t' @ rest" by (simp_all only: prefix_listed)
  then obtain rest' where "s = t' @ rest'" by blast
  from token_prefix_unique[OF tok s tok' this] t' show "tokenAtHead s = Some t" by simp
qed

lemma tokenAtHead_None_iff: "tokenAtHead s = None \<longleftrightarrow> matchToken s = None"
proof -
  have "tokenAtHead s \<noteq> None \<longleftrightarrow> (\<exists>t rest. s = t @ rest \<and> isToken t)"
    using tokenAtHead_Some_iff[of s] by auto
  then show ?thesis using matchToken_isToken[of s] by auto
qed

lemma matchToken_tokenAtHead:
  "matchToken s = Some (inner, d, rest) \<longleftrightarrow>
     (\<exists>c. s = c # inner @ d # rest \<and> tokenAtHead s = Some (c # inner @ [d]))"
proof
  assume "matchToken s = Some (inner, d, rest)"
  then obtain c where c: "s = c # inner @ d # rest" "isOpener c" "inner \<noteq> []"
      "list_all isInner inner" "isCloser d"
    using matchToken_Some_iff[of s inner d rest] by blast
  then have "isToken (c # inner @ [d])" using isToken_shape by blast
  moreover from c(1) have "s = (c # inner @ [d]) @ rest" by simp
  ultimately have "tokenAtHead s = Some (c # inner @ [d])"
    using tokenAtHead_Some_iff[of s "c # inner @ [d]"] by blast
  with c(1) show "\<exists>c. s = c # inner @ d # rest \<and> tokenAtHead s = Some (c # inner @ [d])"
    by blast
next
  assume "\<exists>c. s = c # inner @ d # rest \<and> tokenAtHead s = Some (c # inner @ [d])"
  then obtain c where s: "s = c # inner @ d # rest"
    and t: "tokenAtHead s = Some (c # inner @ [d])" by blast
  from t have "isToken (c # inner @ [d])" using tokenAtHead_Some_iff by blast
  then obtain c' inner' d' where sh: "c # inner @ [d] = c' # inner' @ [d']" "isOpener c'"
      "inner' \<noteq> []" "list_all isInner inner'" "isCloser d'" using isToken_shape by blast
  from sh(1) have "c = c'" "inner = inner'" "d = d'" by simp_all
  with sh s show "matchToken s = Some (inner, d, rest)"
    using matchToken_Some_iff[of s inner d rest] by blast
qed

lemma spansFrom_drop: "spansFrom k s = spansFrom 0 (drop k s)"
  by (induction k s rule: spansFrom.induct) simp_all

lemma findToken_spans_None: "findToken i s = None \<Longrightarrow> spansFrom 0 s = []"
proof (induction s arbitrary: i)
  case Nil
  then show ?case by simp
next
  case (Cons c cs)
  from Cons.prems have n: "matchToken (c # cs) = None" and f: "findToken (Suc i) cs = None"
    by (auto split: option.splits)
  from n have "tokenAtHead (c # cs) = None" by (simp add: tokenAtHead_None_iff)
  with Cons.IH[OF f] show ?case by simp
qed

lemma findToken_spans_Some:
  "findToken i s = Some m \<Longrightarrow>
     spansFrom 0 s = m_0 m # spansFrom 0 (drop (m_index m - i + length (m_0 m)) s)"
proof (induction s arbitrary: i)
  case Nil
  then show ?case by simp
next
  case (Cons c cs)
  show ?case
  proof (cases "matchToken (c # cs)")
    case None
    with Cons.prems have f: "findToken (Suc i) cs = Some m" by simp
    from findToken_Some[OF f] have le: "Suc i \<le> m_index m" by auto
    from None have "tokenAtHead (c # cs) = None" by (simp add: tokenAtHead_None_iff)
    then have "spansFrom 0 (c # cs) = spansFrom 0 cs" by simp
    also have "\<dots> = m_0 m # spansFrom 0 (drop (m_index m - Suc i + length (m_0 m)) cs)"
      by (rule Cons.IH[OF f])
    also have "drop (m_index m - Suc i + length (m_0 m)) cs
               = drop (m_index m - i + length (m_0 m)) (c # cs)"
    proof -
      have "m_index m - i + length (m_0 m) = Suc (m_index m - Suc i + length (m_0 m))"
        using le by arith
      then show ?thesis by (simp only: drop_Suc_Cons)
    qed
    finally show ?thesis .
  next
    case (Some r)
    obtain inner d rest where r: "r = (inner, d, rest)" by (cases r) auto
    from Some r Cons.prems have m: "m = \<lparr>m_index = i, m_0 = c # inner @ [d], m_1 = inner\<rparr>"
      by simp
    from Some r have "tokenAtHead (c # cs) = Some (c # inner @ [d])"
      using matchToken_tokenAtHead[of "c # cs" inner d rest] by auto
    then have "spansFrom 0 (c # cs) = (c # inner @ [d]) # spansFrom (length inner + 1) cs"
      by simp
    also have "spansFrom (length inner + 1) cs = spansFrom 0 (drop (length inner + 1) cs)"
      by (rule spansFrom_drop)
    finally show ?thesis using m by simp
  qed
qed

lemma regexExec_spans_None:
  "regexExec content li = None \<Longrightarrow> spansFrom 0 (drop li content) = []"
  by (auto simp: regexExec_def findToken_spans_None split: if_splits)

lemma regexExec_spans_Some:
  assumes "regexExec content li = Some m"
  shows "spansFrom 0 (drop li content)
         = m_0 m # spansFrom 0 (drop (m_index m + length (m_0 m)) content)"
proof -
  from assms have f: "findToken li (drop li content) = Some m"
    by (auto simp: regexExec_def split: if_splits)
  from regexExec_Some[OF assms] have le: "li \<le> m_index m" by blast
  have "drop (m_index m - li + length (m_0 m)) (drop li content)
        = drop (m_index m + length (m_0 m)) content"
    using le by (simp add: add.commute add.left_commute)
  with findToken_spans_Some[OF f] show ?thesis by simp
qed

lemma skippedInner_iff:
  "skippedInner x \<longleftrightarrow> excludedMarker x \<or> x = word_jouken \<or> x = word_shutsuryoku_keishiki"
  by (cases x) (auto simp: skippedInner_def excludedMarker_def word_jouken_def
      word_shutsuryoku_keishiki_def)

lemma extractLoop_spans:
  "extractLoop content li n flds = Some r \<Longrightarrow>
     map original r
       = map original flds
         @ filter (\<lambda>t. \<not> skippedInner (innerText t)) (spansFrom 0 (drop li content))"
proof (induction "Suc (length content) - li" arbitrary: li n flds rule: less_induct)
  case less
  show ?case
  proof (cases "regexExec content li")
    case None
    with less.prems have "r = flds" by (subst (asm) extractLoop.simps) simp
    with regexExec_spans_None[OF None] show ?thesis by simp
  next
    case (Some m)
    from regexExec_advances[OF Some]
    have dec: "Suc (length content) - (m_index m + length (m_0 m)) < Suc (length content) - li"
      by arith
    note ih = less.hyps[OF dec]
    from regexExec_token[OF Some] have inn: "innerText (m_0 m) = m_1 m" by simp
    note sp = regexExec_spans_Some[OF Some]
    from less.prems have run':
      "(if excludedMarker (m_1 m) then
            extractLoop content (m_index m + length (m_0 m)) n flds
          else if m_1 m = word_jouken \<or> m_1 m = word_shutsuryoku_keishiki then
            extractLoop content (m_index m + length (m_0 m)) n flds
          else
            extractLoop content (m_index m + length (m_0 m)) (n + 1)
              (flds @ [makeField content m n])) = Some r"
      by (subst (asm) extractLoop.simps) (simp add: Some)
    show ?thesis
    proof (cases "skippedInner (m_1 m)")
      case True
      with run' have "extractLoop content (m_index m + length (m_0 m)) n flds = Some r"
        by (auto simp: skippedInner_iff split: if_splits)
      from ih[OF this] True show ?thesis by (simp add: sp inn)
    next
      case False
      with run' have "extractLoop content (m_index m + length (m_0 m)) (n + 1)
              (flds @ [makeField content m n]) = Some r"
        by (auto simp: skippedInner_iff split: if_splits)
      from ih[OF this] False show ?thesis by (simp add: sp inn original_makeField)
    qed
  qed
qed

lemma extractFields_spans:
  "extractFields s = Some fs \<Longrightarrow>
     map original fs = filter (\<lambda>t. \<not> skippedInner (innerText t)) (tokenSpans s)"
  using extractLoop_spans[of s 0 0 "[]" fs] by (simp add: extractFields_def tokenSpans_def)

lemma tokenAtHead_by_match:
  "tokenAtHead s =
     (case matchToken s of None \<Rightarrow> None | Some (inner, d, rest) \<Rightarrow> Some (hd s # inner @ [d]))"
proof (cases "matchToken s")
  case None
  then show ?thesis by (simp add: tokenAtHead_None_iff)
next
  case (Some r)
  obtain inner d rest where r: "r = (inner, d, rest)" by (cases r) auto
  with Some obtain c where "s = c # inner @ d # rest" "tokenAtHead s = Some (c # inner @ [d])"
    using matchToken_tokenAtHead[of s inner d rest] by auto
  with Some r show ?thesis by simp
qed

lemmas spans_eval = tokenSpans_def tokenAtHead_by_match isOpener_def isCloser_def isInner_def
  ascii_def skippedInner_def innerText_def

lemma regexExec_None_spans:
  "regexExec s li = None \<longleftrightarrow> (\<forall>j. li \<le> j \<and> j < length s \<longrightarrow> tokenAtHead (drop j s) = None)"
  by (simp add: regexExec_None_iff tokenAtHead_None_iff)

lemma regexExec_Some_spans:
  assumes "regexExec s li = Some m"
  shows "li \<le> m_index m \<and> m_index m < length s
         \<and> tokenAtHead (drop (m_index m) s) = Some (m_0 m) \<and> m_1 m = innerText (m_0 m)
         \<and> (\<forall>j. li \<le> j \<and> j < m_index m \<longrightarrow> tokenAtHead (drop j s) = None)"
proof -
  from regexExec_Some[OF assms] obtain rest where
    r: "li \<le> m_index m" "m_index m < length s" "drop (m_index m) s = m_0 m @ rest"
       "\<forall>j. li \<le> j \<and> j < m_index m \<longrightarrow> matchToken (drop j s) = None" by blast
  from regexExec_token[OF assms] have tok: "isToken (m_0 m)" and inn: "m_1 m = innerText (m_0 m)"
    by simp_all
  from tok r(3) have "tokenAtHead (drop (m_index m) s) = Some (m_0 m)"
    using tokenAtHead_Some_iff[of "drop (m_index m) s" "m_0 m"] by blast
  with r inn show ?thesis by (simp add: tokenAtHead_None_iff)
qed

text \<open>
  The spec has a span opened with \<^verbatim>\<open>[\<close> and closed with \<^verbatim>\<open>}\<close> not be a token. The
  pattern's closing class accepts either closer after either opener: \<^verbatim>\<open>[a}\<close> is a
  token and gives a field.
\<close>

theorem mismatched_delimiters_counterexample:
  "extractFields (ascii ''[a}'') =
     Some [\<lparr>id_f = ascii ''field_0'', label = word_nyuuryoku @ ascii '' 1'',
            placeholder = ascii ''a'', hint = ascii ''a'' @ text_wo_nyuuryoku,
            original = ascii ''[a}''\<rparr>]"
  by (simp add: extract_eval)

text \<open>
  C4 (amended): extractFields recognises as a placeholder token exactly the spans made
  of an opener (\<^verbatim>\<open>[\<close> or \<^verbatim>\<open>{\<close>), a run, not empty, of code units other than \<^verbatim>\<open>]\<close>,
  \<^verbatim>\<open>{\<close> and \<^verbatim>\<open>}\<close>, and a closer (\<^verbatim>\<open>]\<close> or \<^verbatim>\<open>}\<close>); the closer need not pair with the
  opener and \<^verbatim>\<open>[\<close> may occur inside. A match attempt at an index succeeds exactly when
  a span of that shape starts there, and then matches that span; a search fails exactly
  when no span starts at or after the index it starts from, and otherwise returns the
  first one, with the inner text as its group; the loop returns for every body, and the
  fields are, in order, the spans met from left to right, the search going on behind
  each span, whose inner text is not an excluded one.
\<close>

theorem token_pattern:
  "(tokenAtHead s = Some t \<longleftrightarrow> isToken t \<and> (\<exists>rest. s = t @ rest))
   \<and> (matchToken s = Some (inner, d, rest) \<longleftrightarrow>
        (\<exists>c. s = c # inner @ d # rest \<and> tokenAtHead s = Some (c # inner @ [d])))
   \<and> (regexExec s li = None \<longleftrightarrow>
        (\<forall>j. li \<le> j \<and> j < length s \<longrightarrow> tokenAtHead (drop j s) = None))
   \<and> (regexExec s li = Some m \<longrightarrow>
        li \<le> m_index m \<and> m_index m < length s
        \<and> tokenAtHead (drop (m_index m) s) = Some (m_0 m) \<and> m_1 m = innerText (m_0 m)
        \<and> (\<forall>j. li \<le> j \<and> j < m_index m \<longrightarrow> tokenAtHead (drop j s) = None))
   \<and> (\<exists>fs. extractFields s = Some fs)
   \<and> (extractFields s = Some fs \<longrightarrow>
        map original fs = filter (\<lambda>t. \<not> skippedInner (innerText t)) (tokenSpans s))"
proof -
  have a: "tokenAtHead s = Some t \<longleftrightarrow> isToken t \<and> (\<exists>rest. s = t @ rest)"
    by (rule tokenAtHead_Some_iff)
  have b: "matchToken s = Some (inner, d, rest) \<longleftrightarrow>
        (\<exists>c. s = c # inner @ d # rest \<and> tokenAtHead s = Some (c # inner @ [d]))"
    by (rule matchToken_tokenAtHead)
  have c: "regexExec s li = None \<longleftrightarrow>
        (\<forall>j. li \<le> j \<and> j < length s \<longrightarrow> tokenAtHead (drop j s) = None)"
    by (rule regexExec_None_spans)
  have d: "regexExec s li = Some m \<longrightarrow>
        li \<le> m_index m \<and> m_index m < length s
        \<and> tokenAtHead (drop (m_index m) s) = Some (m_0 m) \<and> m_1 m = innerText (m_0 m)
        \<and> (\<forall>j. li \<le> j \<and> j < m_index m \<longrightarrow> tokenAtHead (drop j s) = None)"
    using regexExec_Some_spans[of s li m] by blast
  have e: "\<exists>fs. extractFields s = Some fs"
    unfolding extractFields_def by (rule extractLoop_terminates)
  have f: "extractFields s = Some fs \<longrightarrow>
        map original fs = filter (\<lambda>t. \<not> skippedInner (innerText t)) (tokenSpans s)"
    using extractFields_spans[of s fs] by blast
  from a b c d e f show ?thesis by blast
qed

theorem token_pattern_witness:
  "extractFields (ascii ''[a} {1} x[u[v]'') =
     Some [\<lparr>id_f = ascii ''field_0'', label = word_nyuuryoku @ ascii '' 1'',
            placeholder = ascii ''a'', hint = ascii ''a'' @ text_wo_nyuuryoku,
            original = ascii ''[a}''\<rparr>,
           \<lparr>id_f = ascii ''field_1'', label = ascii ''[a} {1} x'',
            placeholder = ascii ''u[v'', hint = ascii ''u[v'' @ text_wo_nyuuryoku,
            original = ascii ''[u[v]''\<rparr>]
   \<and> tokenSpans (ascii ''[a} {1} x[u[v]'') = [ascii ''[a}'', ascii ''{1}'', ascii ''[u[v]'']
   \<and> filter (\<lambda>t. \<not> skippedInner (innerText t)) (tokenSpans (ascii ''[a} {1} x[u[v]''))
       = [ascii ''[a}'', ascii ''[u[v]'']
   \<and> regexExec (ascii ''[a} {1} x[u[v]'') 1 =
       Some \<lparr>m_index = 4, m_0 = ascii ''{1}'', m_1 = ascii ''1''\<rparr>
   \<and> tokenAtHead (drop 4 (ascii ''[a} {1} x[u[v]'')) = Some (ascii ''{1}'')
   \<and> tokenAtHead (drop 1 (ascii ''[a} {1} x[u[v]'')) = None
   \<and> isToken (ascii ''[u[v]'')"
proof -
  have e: "extractFields (ascii ''[a} {1} x[u[v]'') =
     Some [\<lparr>id_f = ascii ''field_0'', label = word_nyuuryoku @ ascii '' 1'',
            placeholder = ascii ''a'', hint = ascii ''a'' @ text_wo_nyuuryoku,
            original = ascii ''[a}''\<rparr>,
           \<lparr>id_f = ascii ''field_1'', label = ascii ''[a} {1} x'',
            placeholder = ascii ''u[v'', hint = ascii ''u[v'' @ text_wo_nyuuryoku,
            original = ascii ''[u[v]''\<rparr>]"
    by (simp add: extract_eval)
  have r: "regexExec (ascii ''[a} {1} x[u[v]'') 1 =
       Some \<lparr>m_index = 4, m_0 = ascii ''{1}'', m_1 = ascii ''1''\<rparr>"
    by (simp add: extract_eval)
  have sp: "tokenSpans (ascii ''[a} {1} x[u[v]'') = [ascii ''[a}'', ascii ''{1}'', ascii ''[u[v]'']"
    by (simp add: spans_eval)
  have tk: "tokenAtHead (ascii ''[u[v]'') = Some (ascii ''[u[v]'')"
    by (simp add: spans_eval)
  note tp = token_pattern[of "ascii ''[a} {1} x[u[v]''" _ _ _ _ 1
        "\<lparr>m_index = 4, m_0 = ascii ''{1}'', m_1 = ascii ''1''\<rparr>"
        "[\<lparr>id_f = ascii ''field_0'', label = word_nyuuryoku @ ascii '' 1'',
            placeholder = ascii ''a'', hint = ascii ''a'' @ text_wo_nyuuryoku,
            original = ascii ''[a}''\<rparr>,
           \<lparr>id_f = ascii ''field_1'', label = ascii ''[a} {1} x'',
            placeholder = ascii ''u[v'', hint = ascii ''u[v'' @ text_wo_nyuuryoku,
            original = ascii ''[u[v]''\<rparr>]"]
  from tp e have flt: "filter (\<lambda>t. \<not> skippedInner (innerText t)) (tokenSpans (ascii ''[a} {1} x[u[v]''))
       = [ascii ''[a}'', ascii ''[u[v]'']"
    by simp
  from tp r have at4: "tokenAtHead (drop 4 (ascii ''[a} {1} x[u[v]'')) = Some (ascii ''{1}'')"
    and at1: "tokenAtHead (drop 1 (ascii ''[a} {1} x[u[v]'')) = None"
    by simp_all
  from token_pattern[of "ascii ''[u[v]''" "ascii ''[u[v]''"] tk
  have it: "isToken (ascii ''[u[v]'')" by simp
  from e sp flt r at4 at1 it show ?thesis by (simp only:)
qed


lemma field_inner:
  assumes "extractFields s = Some fs" and "f \<in> set fs"
  shows "\<exists>li m k. regexExec s li = Some m \<and> f = makeField s m k
           \<and> innerText (original f) = m_1 m \<and> m_1 m \<noteq> [] \<and> \<not> excludedMarker (m_1 m)
           \<and> m_1 m \<noteq> word_jouken \<and> m_1 m \<noteq> word_shutsuryoku_keishiki"
proof -
  from fields_made[OF assms] obtain li m k where
    m: "regexExec s li = Some m" "f = makeField s m k" "\<not> excludedMarker (m_1 m)"
       "m_1 m \<noteq> word_jouken" "m_1 m \<noteq> word_shutsuryoku_keishiki" by blast
  from regexExec_token[OF m(1)] regexExec_shape[OF m(1)] m(2)
  have "innerText (original f) = m_1 m" "m_1 m \<noteq> []"
    by (auto simp: original_makeField)
  with m show ?thesis by blast
qed

section \<open>Excluded tokens\<close>

text \<open>
  C6: a token whose inner text begins with a circled number (U+2460 to U+2469) or an
  ASCII digit, or is exactly the word for conditions or the word for output format, is
  skipped: no field of any body has such an inner text, and the body
  \<^verbatim>\<open>[\<close>U+6761 U+4EF6\<^verbatim>\<open>] [1 done] {\<close>U+51FA U+529B U+5F62 U+5F0F\<^verbatim>\<open>}\<close> gives the empty
  field list.
\<close>

theorem excluded_tokens_skipped:
  "extractFields
     ([0x5B] @ word_jouken @ ascii ''] [1 done] {'' @ word_shutsuryoku_keishiki @ ascii ''}'')
     = Some []
   \<and> (extractFields s = Some fs \<longrightarrow>
        (\<forall>f\<in>set fs. innerText (original f) \<noteq> []
           \<and> \<not> (0x2460 \<le> hd (innerText (original f)) \<and> hd (innerText (original f)) \<le> 0x2469)
           \<and> \<not> (0x30 \<le> hd (innerText (original f)) \<and> hd (innerText (original f)) \<le> 0x39)
           \<and> innerText (original f) \<noteq> word_jouken
           \<and> innerText (original f) \<noteq> word_shutsuryoku_keishiki))"
proof -
  have a: "extractFields
     ([0x5B] @ word_jouken @ ascii ''] [1 done] {'' @ word_shutsuryoku_keishiki @ ascii ''}'')
     = Some []"
    by (simp add: extract_eval)
  have b: "extractFields s = Some fs \<longrightarrow>
        (\<forall>f\<in>set fs. innerText (original f) \<noteq> []
           \<and> \<not> (0x2460 \<le> hd (innerText (original f)) \<and> hd (innerText (original f)) \<le> 0x2469)
           \<and> \<not> (0x30 \<le> hd (innerText (original f)) \<and> hd (innerText (original f)) \<le> 0x39)
           \<and> innerText (original f) \<noteq> word_jouken
           \<and> innerText (original f) \<noteq> word_shutsuryoku_keishiki)"
  proof (intro impI ballI)
    fix f assume "extractFields s = Some fs" "f \<in> set fs"
    from field_inner[OF this] obtain m :: regexMatch where
      m: "innerText (original f) = m_1 m" "m_1 m \<noteq> []" "\<not> excludedMarker (m_1 m)"
         "m_1 m \<noteq> word_jouken" "m_1 m \<noteq> word_shutsuryoku_keishiki" by blast
    from m(2) obtain c cs where "m_1 m = c # cs" by (cases "m_1 m") auto
    with m(3) have "\<not> (0x2460 \<le> hd (m_1 m) \<and> hd (m_1 m) \<le> 0x2469)"
       "\<not> (0x30 \<le> hd (m_1 m) \<and> hd (m_1 m) \<le> 0x39)"
      by (auto simp: excludedMarker_def)
    with m show "innerText (original f) \<noteq> []
           \<and> \<not> (0x2460 \<le> hd (innerText (original f)) \<and> hd (innerText (original f)) \<le> 0x2469)
           \<and> \<not> (0x30 \<le> hd (innerText (original f)) \<and> hd (innerText (original f)) \<le> 0x39)
           \<and> innerText (original f) \<noteq> word_jouken
           \<and> innerText (original f) \<noteq> word_shutsuryoku_keishiki"
      by simp
  qed
  from a b show ?thesis by blast
qed

theorem excluded_tokens_skipped_witness:
  "extractFields (ascii ''[1] {'' @ word_jouken @ ascii ''} [a]'') =
      Some [\<lparr>id_f = ascii ''field_0'', label = ascii ''[1] {'' @ word_jouken @ ascii ''}'',
            placeholder = ascii ''a'', hint = ascii ''a'' @ text_wo_nyuuryoku,
            original = ascii ''[a]''\<rparr>]
   \<and> innerText (ascii ''[a]'') = ascii ''a''
   \<and> innerText (ascii ''[a]'') \<noteq> word_jouken"
proof -
  have e: "extractFields (ascii ''[1] {'' @ word_jouken @ ascii ''} [a]'') =
      Some [\<lparr>id_f = ascii ''field_0'', label = ascii ''[1] {'' @ word_jouken @ ascii ''}'',
            placeholder = ascii ''a'', hint = ascii ''a'' @ text_wo_nyuuryoku,
            original = ascii ''[a]''\<rparr>]"
    by (simp add: extract_eval)
  have i: "innerText (ascii ''[a]'') = ascii ''a''"
    by (simp add: innerText_def ascii_def)
  from e i excluded_tokens_skipped[of "ascii ''[1] {'' @ word_jouken @ ascii ''} [a]''"
      "[\<lparr>id_f = ascii ''field_0'', label = ascii ''[1] {'' @ word_jouken @ ascii ''}'',
            placeholder = ascii ''a'', hint = ascii ''a'' @ text_wo_nyuuryoku,
            original = ascii ''[a]''\<rparr>]"]
  show ?thesis by simp
qed

section \<open>Empty inner text\<close>

text \<open>
  The spec has \<^verbatim>\<open>[]\<close> give a field with an empty placeholder. The group of the pattern
  is \<^verbatim>\<open>+\<close>, one or more code units: \<^verbatim>\<open>[]\<close> is not matched and gives no field.
\<close>

theorem empty_brackets_counterexample:
  "extractFields (ascii ''[]'') = Some []"
  by (simp add: extract_eval)

lemma placeholder_makeField_empty:
  assumes "m_1 m \<noteq> []" and "placeholder (makeField s m k) = []"
  shows "m_1 m = rei_wide \<or> m_1 m = rei_ascii"
proof -
  have ne: "text_koko_ni \<noteq> []" by (simp add: text_koko_ni_def)
  from assms ne have sw: "startsWith (m_1 m) rei_wide \<or> startsWith (m_1 m) rei_ascii"
    by (auto simp: makeField_def Let_def split: if_splits)
  with assms(2) have d: "drop 2 (m_1 m) = []"
    by (auto simp: makeField_def Let_def split: if_splits)
  then have "take 2 (m_1 m) = m_1 m" by simp
  with sw show ?thesis
    by (auto simp: startsWith_def rei_wide_def rei_ascii_def)
qed

text \<open>
  C3 (amended): the two-character span \<^verbatim>\<open>[]\<close> is not a token and yields no field: the
  inner text of every field is not empty, so empty inner text never reaches the
  placeholder rules, and a field whose placeholder is the empty string is one whose
  inner text is exactly the example marker (the first rule), never one of the
  verbatim rule.
\<close>

theorem empty_inner_text_never_a_field:
  "extractFields s = Some fs \<Longrightarrow> f \<in> set fs \<Longrightarrow>
     original f \<noteq> ascii ''[]'' \<and> innerText (original f) \<noteq> []
     \<and> (placeholder f = [] \<longrightarrow>
          innerText (original f) = rei_wide \<or> innerText (original f) = rei_ascii)"
proof -
  assume "extractFields s = Some fs" "f \<in> set fs"
  from field_inner[OF this] obtain m k where
    m: "f = makeField s m k" "innerText (original f) = m_1 m" "m_1 m \<noteq> []" by blast
  have "innerText (ascii ''[]'') = []" by (simp add: innerText_def ascii_def)
  with m(2,3) have "original f \<noteq> ascii ''[]''" by auto
  moreover have "placeholder f = [] \<longrightarrow>
          innerText (original f) = rei_wide \<or> innerText (original f) = rei_ascii"
    using placeholder_makeField_empty[OF m(3), of s k] m(1,2) by simp
  ultimately show ?thesis using m(2,3) by simp
qed

theorem empty_inner_text_never_a_field_witness:
  "extractFields (ascii ''[] ['' @ rei_wide @ ascii '']'') =
      Some [\<lparr>id_f = ascii ''field_0'', label = ascii ''[]'', placeholder = [],
             hint = rei_wide, original = ascii ''['' @ rei_wide @ ascii '']''\<rparr>]
   \<and> innerText (ascii ''['' @ rei_wide @ ascii '']'') = rei_wide"
proof -
  have e: "extractFields (ascii ''[] ['' @ rei_wide @ ascii '']'') =
      Some [\<lparr>id_f = ascii ''field_0'', label = ascii ''[]'', placeholder = [],
             hint = rei_wide, original = ascii ''['' @ rei_wide @ ascii '']''\<rparr>]"
    by (simp add: extract_eval)
  have r: "innerText (ascii ''['' @ rei_wide @ ascii '']'') = rei_wide"
    by (simp add: innerText_def ascii_def rei_wide_def)
  from e r empty_inner_text_never_a_field[OF e, of
      "\<lparr>id_f = ascii ''field_0'', label = ascii ''[]'', placeholder = [],
             hint = rei_wide, original = ascii ''['' @ rei_wide @ ascii '']''\<rparr>"]
  show ?thesis by simp
qed

section \<open>Where the body is split\<close>

text \<open>
  A heading starts at the head of a string exactly when the string is U+3010, a title
  without U+3011 that is not empty, U+3011 and a rest: the greedy run of
  \<open>headingAt\<close> is the only title there can be.
\<close>

lemma headingAt_iff:
  "headingAt s \<longleftrightarrow>
     (\<exists>t rest. s = 0x3010 # t @ 0x3011 # rest \<and> t \<noteq> [] \<and> 0x3011 \<notin> set t)"
proof
  assume a: "headingAt s"
  then obtain c cs where s: "s = c # cs" by (cases s) (auto simp: headingAt_def)
  from a s have c: "c = 0x3010" and tw: "takeWhile notClosingMark cs \<noteq> []"
    and dw: "dropWhile notClosingMark cs \<noteq> []" by (auto simp: headingAt_def)
  from dw obtain d rest where d: "dropWhile notClosingMark cs = d # rest"
    by (cases "dropWhile notClosingMark cs") auto
  then have "\<not> notClosingMark d" using hd_dropWhile[of notClosingMark cs] by auto
  then have d3011: "d = 0x3011" by (simp add: notClosingMark_def)
  have "cs = takeWhile notClosingMark cs @ dropWhile notClosingMark cs" by simp
  with d d3011 have cs: "cs = takeWhile notClosingMark cs @ 0x3011 # rest" by simp
  have "0x3011 \<notin> set (takeWhile notClosingMark cs)"
    using set_takeWhileD[of "0x3011" notClosingMark cs] by (auto simp: notClosingMark_def)
  with s c cs tw show "\<exists>t rest. s = 0x3010 # t @ 0x3011 # rest \<and> t \<noteq> [] \<and> 0x3011 \<notin> set t"
    by blast
next
  assume "\<exists>t rest. s = 0x3010 # t @ 0x3011 # rest \<and> t \<noteq> [] \<and> 0x3011 \<notin> set t"
  then obtain t rest where s: "s = 0x3010 # t @ 0x3011 # rest" and ne: "t \<noteq> []"
    and nin: "0x3011 \<notin> set t" by blast
  from nin have al: "\<And>x. x \<in> set t \<Longrightarrow> notClosingMark x"
    by (auto simp: notClosingMark_def)
  have nd: "\<not> notClosingMark 0x3011" by (simp add: notClosingMark_def)
  have tw: "takeWhile notClosingMark (t @ 0x3011 # rest) = t"
    using al nd by (simp add: takeWhile_append2)
  have dw: "dropWhile notClosingMark (t @ 0x3011 # rest) = 0x3011 # rest"
    using al nd by (simp add: dropWhile_append2)
  show "headingAt s" unfolding headingAt_def s
    by (simp only: list.case tw dw) (simp add: ne)
qed

lemma splitLoop_cutAt:
  "p \<le> q \<Longrightarrow>
     splitLoop S p q A =
       A @ cutAt S p (filter (\<lambda>j. p < j \<and> headingAt (drop j S)) [q..<length S])"
proof (induction S p q A rule: splitLoop.induct)
  case (1 S p q A)
  show ?case
  proof (cases "q < length S")
    case False
    then show ?thesis by (subst splitLoop.simps) simp
  next
    case True
    then have upt: "\<And>i. i = q \<Longrightarrow> [i..<length S] = i # [Suc i..<length S]"
      by (simp add: upt_rec)
    show ?thesis
    proof (cases "headingAt (drop q S)")
      case False
      with True "1.IH"(3) "1.prems" show ?thesis
        by (subst splitLoop.simps) (simp add: upt)
    next
      case h: True
      show ?thesis
      proof (cases "q = p")
        case True
        with \<open>q < length S\<close> h "1.IH"(1) show ?thesis
          by (subst splitLoop.simps) (simp add: upt)
      next
        case False
        with "1.prems" have pq: "p < q" by simp
        have f: "filter (\<lambda>j. q < j \<and> headingAt (drop j S)) [q..<length S]
                 = filter (\<lambda>j. p < j \<and> headingAt (drop j S)) [Suc q..<length S]"
          using pq by (simp add: upt) (rule filter_cong, auto)
        from \<open>q < length S\<close> h False "1.IH"(2)
        have "splitLoop S p q A = (A @ [substring S p q])
                @ cutAt S q (filter (\<lambda>j. q < j \<and> headingAt (drop j S)) [q..<length S])"
          by (subst splitLoop.simps) simp
        also have "\<dots> = A @ cutAt S p
                (filter (\<lambda>j. p < j \<and> headingAt (drop j S)) [q..<length S])"
          using pq h by (simp add: f) (simp add: upt)
        finally show ?thesis .
      qed
    qed
  qed
qed

lemma split_s_cutAt:
  "split_s S = cutAt S 0 (filter (\<lambda>j. headingAt (drop j S)) [1..<length S])"
proof (cases "S = []")
  case True
  then show ?thesis by (simp add: split_s_def headingAt_def substring_def)
next
  case False
  then have upt: "[0..<length S] = 0 # [1..<length S]" by (simp add: upt_rec)
  have f: "filter (\<lambda>j. 0 < j \<and> headingAt (drop j S)) [1..<length S]
           = filter (\<lambda>j. headingAt (drop j S)) [1..<length S]"
    by (rule filter_cong) auto
  from False have "split_s S = splitLoop S 0 0 []" by (simp add: split_s_def)
  also have "\<dots> = cutAt S 0 (filter (\<lambda>j. 0 < j \<and> headingAt (drop j S)) [0..<length S])"
    using splitLoop_cutAt[of 0 0 S "[]"] by simp
  also have "\<dots> = cutAt S 0 (filter (\<lambda>j. headingAt (drop j S)) [1..<length S])"
    by (simp only: upt filter.simps f) simp
  finally show ?thesis .
qed

lemma concat_cutAt:
  "sorted (p # js) \<Longrightarrow> list_all (\<lambda>j. j \<le> length S) js \<Longrightarrow> concat (cutAt S p js) = drop p S"
proof (induction js arbitrary: p)
  case Nil
  then show ?case by (simp add: substring_def min_def)
next
  case (Cons j js)
  then have pj: "p \<le> j" and s: "sorted (j # js)" and a: "list_all (\<lambda>j. j \<le> length S) js"
    by auto
  have "drop (j - p) (drop p S) = drop j S" using pj by simp
  then have "take (j - p) (drop p S) @ drop j S = drop p S"
    using append_take_drop_id[of "j - p" "drop p S"] by (simp only:)
  with Cons.IH[OF s a] pj show ?case by (simp add: substring_def)
qed

lemma concat_split_s: "concat (split_s S) = S"
proof -
  have "sorted (0 # filter (\<lambda>j. headingAt (drop j S)) [1..<length S])"
    by (simp add: sorted_wrt_filter)
  moreover have "list_all (\<lambda>j. j \<le> length S) (filter (\<lambda>j. headingAt (drop j S)) [1..<length S])"
    by (simp add: list_all_iff)
  ultimately show ?thesis using concat_cutAt[of 0 _ S] by (simp add: split_s_cutAt)
qed

text \<open>
  The spec has a heading that is not at the beginning of a line not be a section
  boundary. The separator has no anchor: in \<^verbatim>\<open>a\<close>U+3010\<^verbatim>\<open>T\<close>U+3011\<^verbatim>\<open>b\<close> the heading
  starts inside the only line, the body is split before it, and there are two sections.
\<close>

theorem heading_inside_a_line_counterexample:
  "parsePromptSections (ascii ''a'' @ [0x3010] @ ascii ''T'' @ [0x3011] @ ascii ''b'')
     = [\<lparr>s_title = title_anata_no_yakuwari, s_content = ascii ''a'',
         s_icon = IconText icon_robot\<rparr>,
        \<lparr>s_title = ascii ''T'', s_content = ascii ''b'', s_icon = IconText icon_page\<rparr>]"
  by (simp add: sections_eval)

text \<open>
  C5 (amended): parsePromptSections splits the body at every index other than 0 where
  a heading starts (U+3010, a title that is not empty, U+3011), at the beginning of a
  line or inside one, and nowhere else. The split is a lookahead split: nothing is
  removed, the chunks concatenated are the body, and the heading is the start of the
  new chunk.
\<close>

theorem section_boundaries:
  "split_s S = cutAt S 0 (filter (\<lambda>j. headingAt (drop j S)) [1..<length S])
   \<and> concat (split_s S) = S
   \<and> parsePromptSections S = parseParts (split_s S) []"
  using split_s_cutAt[of S] concat_split_s[of S] by (simp add: parsePromptSections_def)

section \<open>The number of sections\<close>





section \<open>Composing\<close>

text \<open>
  \<open>findFirst\<close> splits the string around the pattern, and the pattern does not occur at
  an earlier index: it is the first occurrence.
\<close>

lemma getSubstitution_no_dollar:
  "0x24 \<notin> set template \<Longrightarrow> getSubstitution matched pre post template = template"
  by (induction matched pre post template rule: getSubstitution.induct) auto

lemma findFirst_Some:
  "findFirst pat s = Some (pre, post) \<Longrightarrow> s = pre @ pat @ post"
proof (induction s arbitrary: pre)
  case Nil
  then show ?case by (auto split: if_splits)
next
  case (Cons c cs)
  show ?case
  proof (cases "startsWith (c # cs) pat")
    case True
    with Cons.prems have "pre = []" "post = drop (length pat) (c # cs)" by auto
    moreover from True have "take (length pat) (c # cs) = pat" by (simp add: startsWith_def)
    ultimately show ?thesis
      using append_take_drop_id[of "length pat" "c # cs"] by simp
  next
    case False
    with Cons.prems obtain pre' where "findFirst pat cs = Some (pre', post)" "pre = c # pre'"
      by (auto split: option.splits)
    with Cons.IH[of pre'] show ?thesis by simp
  qed
qed

lemma findFirst_first:
  "findFirst pat s = Some (pre, post) \<Longrightarrow> k < length pre \<Longrightarrow> \<not> startsWith (drop k s) pat"
proof (induction s arbitrary: pre k)
  case Nil
  then show ?case by (auto split: if_splits)
next
  case (Cons c cs)
  show ?case
  proof (cases "startsWith (c # cs) pat")
    case True
    with Cons.prems show ?thesis by auto
  next
    case False
    with Cons.prems obtain pre' where p: "findFirst pat cs = Some (pre', post)" "pre = c # pre'"
      by (auto split: option.splits)
    show ?thesis
    proof (cases k)
      case 0
      with False show ?thesis by simp
    next
      case (Suc k')
      with Cons.prems(2) p(2) have "k' < length pre'" by simp
      from Cons.IH[OF p(1) this] Suc show ?thesis by simp
    qed
  qed
qed

lemma findFirst_None:
  "findFirst pat s = None \<Longrightarrow> \<not> startsWith (drop k s) pat"
proof (induction s arbitrary: k)
  case Nil
  then show ?case by (auto simp: startsWith_def split: if_splits)
next
  case (Cons c cs)
  from Cons.prems have ns: "\<not> startsWith (c # cs) pat" and n: "findFirst pat cs = None"
    by (auto split: if_splits option.splits)
  show ?case
  proof (cases k)
    case 0
    with ns show ?thesis by simp
  next
    case (Suc k')
    with Cons.IH[OF n, of k'] show ?thesis by simp
  qed
qed

lemma replace_s_literal:
  "0x24 \<notin> set v \<Longrightarrow> replace_s s pat v = literalReplace s pat v"
  by (simp add: replace_s_def literalReplace_def getSubstitution_no_dollar
      split: option.splits)

lemma replace_s_self:
  assumes "0x24 \<notin> set pat"
  shows "replace_s s pat pat = s"
proof (cases "findFirst pat s")
  case None
  then show ?thesis by (simp add: replace_s_def)
next
  case (Some r)
  obtain pre post where r: "r = (pre, post)" by (cases r) auto
  with Some have "s = pre @ pat @ post" by (simp add: findFirst_Some)
  with Some r assms show ?thesis
    by (simp add: replace_s_def getSubstitution_no_dollar)
qed

lemma buildPrompt_identity:
  "list_all (\<lambda>f. 0x24 \<notin> set (original f) \<and> id_f f \<notin> set objectPrototypeKeys) fs
     \<Longrightarrow> buildPrompt s fs Map.empty = Inr s"
  by (induction fs) (simp_all add: fieldValue_def replaceWith_def replace_s_self)

lemma original_in_body:
  assumes "extractFields s = Some fs" and "f \<in> set fs"
  shows "set (original f) \<subseteq> set s"
proof -
  from fields_made[OF assms] obtain li m k where
    m: "regexExec s li = Some m" "f = makeField s m k" by blast
  from regexExec_token[OF m(1)]
  have "take (length (m_0 m)) (drop (m_index m) s) = m_0 m" by simp
  then have "set (m_0 m) \<subseteq> set (drop (m_index m) s)"
    by (metis set_take_subset)
  also have "\<dots> \<subseteq> set s" by (rule set_drop_subset)
  finally show ?thesis using m(2) by (simp add: original_makeField)
qed

lemma id_makeField: "id_f (makeField content m n) = ascii ''field_'' @ decimal n"
  by (simp add: makeField_def Let_def)

lemma field_id_not_inherited: "ascii ''field_'' @ x \<notin> set objectPrototypeKeys"
  by (simp add: objectPrototypeKeys_def ascii_def)

lemma extracted_id_not_inherited:
  assumes "extractFields s = Some fs" and "f \<in> set fs"
  shows "id_f f \<notin> set objectPrototypeKeys"
proof -
  from fields_made[OF assms] obtain m k where "f = makeField s m k" by blast
  then show ?thesis by (simp add: id_makeField field_id_not_inherited)
qed

lemma buildPrompt_empty_values_without_dollar:
  assumes "0x24 \<notin> set s" and "extractFields s = Some fs"
  shows "buildPrompt s fs Map.empty = Inr s"
proof -
  have "list_all (\<lambda>f. 0x24 \<notin> set (original f) \<and> id_f f \<notin> set objectPrototypeKeys) fs"
    using original_in_body[OF assms(2)] extracted_id_not_inherited[OF assms(2)] assms(1)
    by (auto simp: list_all_iff)
  then show ?thesis by (rule buildPrompt_identity)
qed

text \<open>
  C1: composing with no values. Each field's \<open>original\<close> is replaced with itself, but
  \<^verbatim>\<open>replace\<close> reads the second argument as a replacement template. A body without a
  dollar sign is reproduced (\<open>buildPrompt_empty_values_without_dollar\<close>); a token with
  a dollar pattern is expanded: for the body \<^verbatim>\<open>Cost [$$]\<close> and no values the composed
  text is \<^verbatim>\<open>Cost [$]\<close>, not the body.
\<close>

theorem empty_values_dollar_token:
  "extractFields (ascii ''Cost [$$]'') =
     Some [\<lparr>id_f = ascii ''field_0'', label = ascii ''Cost'', placeholder = ascii ''$$'',
            hint = ascii ''$$'' @ text_wo_nyuuryoku, original = ascii ''[$$]''\<rparr>]
   \<and> buildPrompt (ascii ''Cost [$$]'')
        [\<lparr>id_f = ascii ''field_0'', label = ascii ''Cost'', placeholder = ascii ''$$'',
           hint = ascii ''$$'' @ text_wo_nyuuryoku, original = ascii ''[$$]''\<rparr>]
        Map.empty
      = Inr (ascii ''Cost [$]'')"
proof -
  have e: "extractFields (ascii ''Cost [$$]'') =
     Some [\<lparr>id_f = ascii ''field_0'', label = ascii ''Cost'', placeholder = ascii ''$$'',
            hint = ascii ''$$'' @ text_wo_nyuuryoku, original = ascii ''[$$]''\<rparr>]"
    by (simp add: extract_eval)
  have b: "buildPrompt (ascii ''Cost [$$]'')
        [\<lparr>id_f = ascii ''field_0'', label = ascii ''Cost'', placeholder = ascii ''$$'',
           hint = ascii ''$$'' @ text_wo_nyuuryoku, original = ascii ''[$$]''\<rparr>]
        Map.empty
      = Inr (ascii ''Cost [$]'')"
    by (simp add: build_eval)
  from e b show ?thesis by simp
qed

text \<open>
  C2: one step of composing. A value without a dollar sign replaces the first
  occurrence of the field's \<open>original\<close> as it is (\<open>replace_s_literal\<close>); a value with
  a dollar pattern is expanded first. For the body \<^verbatim>\<open>x [v] y\<close> and the value
  \<^verbatim>\<open>5$'\<close> the composed text is \<^verbatim>\<open>x 5 y y\<close> (the pattern stands for the text after
  the match), where replacing the token with the value gives \<^verbatim>\<open>x 5$' y\<close>.
\<close>

theorem value_with_dollar_quote:
  "buildPrompt (ascii ''x [v] y'')
     [\<lparr>id_f = ascii ''field_0'', label = ascii ''x'', placeholder = ascii ''v'',
        hint = ascii ''v'' @ text_wo_nyuuryoku, original = ascii ''[v]''\<rparr>]
     [ascii ''field_0'' \<mapsto> ascii ''5$'' @ [0x27]]
   = Inr (ascii ''x 5 y y'')
   \<and> literalReplace (ascii ''x [v] y'') (ascii ''[v]'') (ascii ''5$'' @ [0x27])
      = ascii ''x 5$'' @ [0x27] @ ascii '' y''"
  by (simp add: build_eval)

text \<open>
  C9: dollar patterns in a value are interpreted. For the body \<^verbatim>\<open>Hi [name]!\<close>, which
  has one field, the value \<^verbatim>\<open><$&>\<close> composes to \<^verbatim>\<open>Hi <[name]>!\<close> (the pattern
  expands to the matched token) and the value \<^verbatim>\<open>US$$5\<close> to \<^verbatim>\<open>Hi US$5!\<close> (two dollar
  signs collapse to one); neither is the token replaced with the value as it is.
\<close>

theorem dollar_patterns_interpreted:
  "extractFields (ascii ''Hi [name]!'') =
     Some [\<lparr>id_f = ascii ''field_0'', label = ascii ''Hi'', placeholder = ascii ''name'',
           hint = ascii ''name'' @ text_wo_nyuuryoku, original = ascii ''[name]''\<rparr>]
   \<and> buildPrompt (ascii ''Hi [name]!'')
        [\<lparr>id_f = ascii ''field_0'', label = ascii ''Hi'', placeholder = ascii ''name'',
           hint = ascii ''name'' @ text_wo_nyuuryoku, original = ascii ''[name]''\<rparr>]
        [ascii ''field_0'' \<mapsto> ascii ''<$&>'']
      = Inr (ascii ''Hi <[name]>!'')
   \<and> buildPrompt (ascii ''Hi [name]!'')
        [\<lparr>id_f = ascii ''field_0'', label = ascii ''Hi'', placeholder = ascii ''name'',
           hint = ascii ''name'' @ text_wo_nyuuryoku, original = ascii ''[name]''\<rparr>]
        [ascii ''field_0'' \<mapsto> ascii ''<$&>'']
      \<noteq> Inr (literalReplace (ascii ''Hi [name]!'') (ascii ''[name]'') (ascii ''<$&>''))
   \<and> buildPrompt (ascii ''Hi [name]!'')
        [\<lparr>id_f = ascii ''field_0'', label = ascii ''Hi'', placeholder = ascii ''name'',
           hint = ascii ''name'' @ text_wo_nyuuryoku, original = ascii ''[name]''\<rparr>]
        [ascii ''field_0'' \<mapsto> ascii ''US$$5'']
      = Inr (ascii ''Hi US$5!'')
   \<and> buildPrompt (ascii ''Hi [name]!'')
        [\<lparr>id_f = ascii ''field_0'', label = ascii ''Hi'', placeholder = ascii ''name'',
           hint = ascii ''name'' @ text_wo_nyuuryoku, original = ascii ''[name]''\<rparr>]
        [ascii ''field_0'' \<mapsto> ascii ''US$$5'']
      \<noteq> Inr (literalReplace (ascii ''Hi [name]!'') (ascii ''[name]'') (ascii ''US$$5''))"
proof -
  have e: "extractFields (ascii ''Hi [name]!'') =
     Some [\<lparr>id_f = ascii ''field_0'', label = ascii ''Hi'', placeholder = ascii ''name'',
           hint = ascii ''name'' @ text_wo_nyuuryoku, original = ascii ''[name]''\<rparr>]"
    by (simp add: extract_eval)
  have b1: "buildPrompt (ascii ''Hi [name]!'')
        [\<lparr>id_f = ascii ''field_0'', label = ascii ''Hi'', placeholder = ascii ''name'',
           hint = ascii ''name'' @ text_wo_nyuuryoku, original = ascii ''[name]''\<rparr>]
        [ascii ''field_0'' \<mapsto> ascii ''<$&>'']
      = Inr (ascii ''Hi <[name]>!'')"
    by (simp add: build_eval)
  have l1: "literalReplace (ascii ''Hi [name]!'') (ascii ''[name]'') (ascii ''<$&>'') = ascii ''Hi <$&>!''"
    by (simp add: build_eval)
  have n1: "ascii ''Hi <[name]>!'' \<noteq> ascii ''Hi <$&>!''"
    by (simp add: ascii_def)
  have b2: "buildPrompt (ascii ''Hi [name]!'')
        [\<lparr>id_f = ascii ''field_0'', label = ascii ''Hi'', placeholder = ascii ''name'',
           hint = ascii ''name'' @ text_wo_nyuuryoku, original = ascii ''[name]''\<rparr>]
        [ascii ''field_0'' \<mapsto> ascii ''US$$5'']
      = Inr (ascii ''Hi US$5!'')"
    by (simp add: build_eval)
  have l2: "literalReplace (ascii ''Hi [name]!'') (ascii ''[name]'') (ascii ''US$$5'') = ascii ''Hi US$$5!''"
    by (simp add: build_eval)
  have n2: "ascii ''Hi US$5!'' \<noteq> ascii ''Hi US$$5!''"
    by (simp add: ascii_def)
  from n1 have d1: "buildPrompt (ascii ''Hi [name]!'')
        [\<lparr>id_f = ascii ''field_0'', label = ascii ''Hi'', placeholder = ascii ''name'',
           hint = ascii ''name'' @ text_wo_nyuuryoku, original = ascii ''[name]''\<rparr>]
        [ascii ''field_0'' \<mapsto> ascii ''<$&>'']
      \<noteq> Inr (literalReplace (ascii ''Hi [name]!'') (ascii ''[name]'') (ascii ''<$&>''))"
    by (simp only: b1 l1) simp
  from n2 have d2: "buildPrompt (ascii ''Hi [name]!'')
        [\<lparr>id_f = ascii ''field_0'', label = ascii ''Hi'', placeholder = ascii ''name'',
           hint = ascii ''name'' @ text_wo_nyuuryoku, original = ascii ''[name]''\<rparr>]
        [ascii ''field_0'' \<mapsto> ascii ''US$$5'']
      \<noteq> Inr (literalReplace (ascii ''Hi [name]!'') (ascii ''[name]'') (ascii ''US$$5''))"
    by (simp only: b2 l2) simp
  from e b1 d1 b2 d2 show ?thesis by blast
qed

text \<open>
  C10: a value that contains a later token. For the body \<^verbatim>\<open>[a] [b]\<close>, which has two
  fields, with the value \<^verbatim>\<open>x[b]y\<close> for the first and \<^verbatim>\<open>Z\<close> for the second, the
  working copy after the first field is \<^verbatim>\<open>x[b]y [b]\<close>; the second replacement lands
  inside the first value and the second token of the body stays: the composed text is
  \<^verbatim>\<open>xZy [b]\<close>.
\<close>

theorem value_containing_later_token:
  "extractFields (ascii ''[a] [b]'') =
     Some [\<lparr>id_f = ascii ''field_0'', label = word_nyuuryoku @ ascii '' 1'',
            placeholder = ascii ''a'', hint = ascii ''a'' @ text_wo_nyuuryoku,
            original = ascii ''[a]''\<rparr>,
           \<lparr>id_f = ascii ''field_1'', label = ascii ''[a]'',
            placeholder = ascii ''b'', hint = ascii ''b'' @ text_wo_nyuuryoku,
            original = ascii ''[b]''\<rparr>]
   \<and> buildPrompt (ascii ''[a] [b]'')
        [\<lparr>id_f = ascii ''field_0'', label = word_nyuuryoku @ ascii '' 1'',
            placeholder = ascii ''a'', hint = ascii ''a'' @ text_wo_nyuuryoku,
            original = ascii ''[a]''\<rparr>,
           \<lparr>id_f = ascii ''field_1'', label = ascii ''[a]'',
            placeholder = ascii ''b'', hint = ascii ''b'' @ text_wo_nyuuryoku,
            original = ascii ''[b]''\<rparr>]
        [ascii ''field_0'' \<mapsto> ascii ''x[b]y'', ascii ''field_1'' \<mapsto> ascii ''Z'']
      = Inr (ascii ''xZy [b]'')
   \<and> replace_s (ascii ''[a] [b]'') (ascii ''[a]'') (ascii ''x[b]y'') = ascii ''x[b]y [b]''
   \<and> replace_s (ascii ''x[b]y [b]'') (ascii ''[b]'') (ascii ''Z'') = ascii ''xZy [b]''"
proof -
  have r1: "replace_s (ascii ''[a] [b]'') (ascii ''[a]'') (ascii ''x[b]y'') = ascii ''x[b]y [b]''"
    by (simp add: build_eval)
  have r2: "replace_s (ascii ''x[b]y [b]'') (ascii ''[b]'') (ascii ''Z'') = ascii ''xZy [b]''"
    by (simp add: build_eval)
  have e: "extractFields (ascii ''[a] [b]'') =
     Some [\<lparr>id_f = ascii ''field_0'', label = word_nyuuryoku @ ascii '' 1'',
            placeholder = ascii ''a'', hint = ascii ''a'' @ text_wo_nyuuryoku,
            original = ascii ''[a]''\<rparr>,
           \<lparr>id_f = ascii ''field_1'', label = ascii ''[a]'',
            placeholder = ascii ''b'', hint = ascii ''b'' @ text_wo_nyuuryoku,
            original = ascii ''[b]''\<rparr>]"
    by (simp add: extract_eval)
  have b: "buildPrompt (ascii ''[a] [b]'')
        [\<lparr>id_f = ascii ''field_0'', label = word_nyuuryoku @ ascii '' 1'',
            placeholder = ascii ''a'', hint = ascii ''a'' @ text_wo_nyuuryoku,
            original = ascii ''[a]''\<rparr>,
           \<lparr>id_f = ascii ''field_1'', label = ascii ''[a]'',
            placeholder = ascii ''b'', hint = ascii ''b'' @ text_wo_nyuuryoku,
            original = ascii ''[b]''\<rparr>]
        [ascii ''field_0'' \<mapsto> ascii ''x[b]y'', ascii ''field_1'' \<mapsto> ascii ''Z'']
      = Inr (ascii ''xZy [b]'')"
    by (simp add: build_eval)
  from e b r1 r2 show ?thesis by blast
qed

section \<open>Totality\<close>




lemma inherited_member_values:
  "buildPrompt (ascii ''x [v]'')
     [\<lparr>id_f = ascii ''toString'', label = [], placeholder = [], hint = [],
        original = ascii ''[v]''\<rparr>] Map.empty
   = Inr (ascii ''x [object Undefined]'')"
  "buildPrompt (ascii ''x [v]'')
     [\<lparr>id_f = ascii ''valueOf'', label = [], placeholder = [], hint = [],
        original = ascii ''[v]''\<rparr>] Map.empty
   = Inl TypeError"
  by (simp_all add: build_eval)








section \<open>Further scenarios of the spec\<close>

text \<open>
  The choice scenario (the body \<^verbatim>\<open>Agree? [\<close>U+306F U+3044\<^verbatim>\<open>/\<close>U+3044 U+3044 U+3048\<^verbatim>\<open>]\<close>)
  and the two section scenarios, evaluated on the model.
\<close>

lemma choice_scenario:
  "extractFields (ascii ''Agree? ['' @ [0x306F, 0x3044, 0x2F, 0x3044, 0x3044, 0x3048] @ ascii '']'')
     = Some [\<lparr>id_f = ascii ''field_0'', label = ascii ''Agree?'',
              placeholder = [0x306F, 0x3044, 0x2F, 0x3044, 0x3044, 0x3048],
              hint = [0x306F, 0x3044, 0x2F, 0x3044, 0x3044, 0x3048] @ text_kara_erande,
              original = ascii ''['' @ [0x306F, 0x3044, 0x2F, 0x3044, 0x3044, 0x3048] @ ascii '']''\<rparr>]"
  by (simp add: extract_eval)

lemma section_split_scenario:
  "parsePromptSections
     ([0x3010] @ ascii ''Role'' @ [0x3011, 0xA] @ ascii ''You are an assistant.'' @ [0xA, 0x3010]
        @ word_jouken @ [0x3011, 0xA] @ ascii ''Be concise.'')
     = [\<lparr>s_title = ascii ''Role'', s_content = ascii ''You are an assistant.'',
         s_icon = IconText icon_page\<rparr>,
        \<lparr>s_title = word_jouken, s_content = ascii ''Be concise.'',
         s_icon = IconText icon_clipboard\<rparr>]"
  by (simp add: sections_eval)

lemma leading_free_text_scenario:
  "parsePromptSections
     (ascii ''Just some text'' @ [0xA, 0x3010] @ ascii ''Conditions'' @ [0x3011, 0xA]
        @ ascii ''Be concise.'')
     = [\<lparr>s_title = title_anata_no_yakuwari, s_content = ascii ''Just some text'',
         s_icon = IconText icon_robot\<rparr>,
        \<lparr>s_title = ascii ''Conditions'', s_content = ascii ''Be concise.'',
         s_icon = IconText icon_page\<rparr>]"
  by (simp add: sections_eval)

end
